theory Spec2Isabelle
  imports
    Complex_Main
    "HOL-Library.AList"
    "HOL-Library.Char_ord"
    "HOL-Library.List_Lexorder"
    "HOL-Library.Product_Lexorder"
begin

text \<open>
  A model of the orchestration layer of \<^verbatim>\<open>raspap_touch_kivy.py\<close>: the busy indicator,
  the reconciliation of saved and scanned Wi-Fi networks, the saved-network backends, the
  background job runner \<^verbatim>\<open>run_bg\<close> over Kivy's clock, the connection attempt with its
  fallback, the debounced geolocation lookup, and the state store. The first part holds
  the definitions, each following the source function it is named after; the second part
  holds the properties. Python integers are \<open>int\<close>, times are \<open>real\<close> seconds,
  dictionaries are association lists in insertion order, exceptions are the left summand
  of a result. Widgets, layout and the HTTP calls are not modelled, and calls into Kivy are
  taken to succeed.
\<close>

section \<open>Busy indicator\<close>

text \<open>
  The module keeps two globals, \<^verbatim>\<open>BUSY_OVERLAY\<close> (the overlay widget, or \<^verbatim>\<open>None\<close>) and
  \<^verbatim>\<open>BUSY_DEPTH\<close> (a Python integer). Only the presence of the overlay matters to the
  callers, so the overlay is a flag; the calls on \<^verbatim>\<open>Window\<close> are returned as a list.
\<close>

record busy_state =
  BUSY_OVERLAY :: bool
  BUSY_DEPTH :: int

datatype window_op = Add_widget | Remove_widget

definition busy_init :: busy_state where
  "busy_init = \<lparr>BUSY_OVERLAY = False, BUSY_DEPTH = 0\<rparr>"

definition show_busy_indicator :: "busy_state \<Rightarrow> busy_state \<times> window_op list" where
  "show_busy_indicator s =
     (let s1 = s\<lparr>BUSY_DEPTH := BUSY_DEPTH s + 1\<rparr>
      in if BUSY_OVERLAY s1 then (s1, [])
         else (s1\<lparr>BUSY_OVERLAY := True\<rparr>, [Add_widget]))"

definition hide_busy_indicator :: "busy_state \<Rightarrow> busy_state \<times> window_op list" where
  "hide_busy_indicator s =
     (let s1 = s\<lparr>BUSY_DEPTH := max 0 (BUSY_DEPTH s - 1)\<rparr>
      in if BUSY_OVERLAY s1 \<and> BUSY_DEPTH s1 = 0
         then (s1\<lparr>BUSY_OVERLAY := False\<rparr>, [Remove_widget])
         else (s1, []))"

datatype busy_call = Enter | Exit

fun busy_step :: "busy_state \<Rightarrow> busy_call \<Rightarrow> busy_state \<times> window_op list" where
  "busy_step s Enter = show_busy_indicator s"
| "busy_step s Exit = hide_busy_indicator s"

text \<open>The globals after a sequence of calls, started from the module's initial values.\<close>

definition busy_after :: "busy_call list \<Rightarrow> busy_state" where
  "busy_after cs = foldl (\<lambda>s c. fst (busy_step s c)) busy_init cs"

definition busy_inv :: "busy_state \<Rightarrow> bool" where
  "busy_inv s = (0 \<le> BUSY_DEPTH s \<and> BUSY_OVERLAY s = (0 < BUSY_DEPTH s))"

text \<open>
  The calls on \<^verbatim>\<open>Window\<close> that a sequence of calls makes from a given state, in order, and
  their effect on the window: \<^verbatim>\<open>add_widget\<close> puts one more overlay among the children of
  the window, \<^verbatim>\<open>remove_widget\<close> takes one away. \<open>overlays_after\<close> is the number of
  overlays on the window after a sequence of calls from the initial state, where the window
  has none.
\<close>

fun busy_trace :: "busy_state \<Rightarrow> busy_call list \<Rightarrow> window_op list" where
  "busy_trace s [] = []"
| "busy_trace s (c # cs) = snd (busy_step s c) @ busy_trace (fst (busy_step s c)) cs"

fun window_step :: "nat \<Rightarrow> window_op \<Rightarrow> nat" where
  "window_step n Add_widget = n + 1"
| "window_step n Remove_widget = n - 1"

definition overlays_after :: "busy_call list \<Rightarrow> nat" where
  "overlays_after cs = foldl window_step 0 (busy_trace busy_init cs)"

section \<open>Python string operations used by the probes\<close>

text \<open>
  Strings are lists of characters with code points below 256. \<^verbatim>\<open>str.strip()\<close> without
  an argument removes leading and trailing whitespace; in this range Python's whitespace
  is U+0009 to U+000D, U+001C to U+0020, U+0085 and U+00A0.
\<close>

definition isspace :: "char \<Rightarrow> bool" where
  "isspace c =
     (let n = (of_char c :: nat)
      in (9 \<le> n \<and> n \<le> 13) \<or> (28 \<le> n \<and> n \<le> 32) \<or> n = 133 \<or> n = 160)"

definition strip :: "string \<Rightarrow> string" where
  "strip s = rev (dropWhile isspace (rev (dropWhile isspace s)))"

text \<open>
  \<^verbatim>\<open>str.splitlines()\<close> ends a line at LF, CR, CR LF, VT, FF, FS, GS, RS and NEL, drops
  the line ends, and yields no empty last line. The first argument of the helper is the
  current line, reversed.
\<close>

definition is_linebreak :: "char \<Rightarrow> bool" where
  "is_linebreak c =
     (let n = (of_char c :: nat)
      in (10 \<le> n \<and> n \<le> 13) \<or> (28 \<le> n \<and> n \<le> 30) \<or> n = 133)"

fun splitlines_from :: "string \<Rightarrow> string \<Rightarrow> string list" where
  "splitlines_from cur [] = (if cur = [] then [] else [rev cur])"
| "splitlines_from cur [c] = (if is_linebreak c then [rev cur] else [rev (c # cur)])"
| "splitlines_from cur (c # d # cs) =
     (if c = CHR 0x0D \<and> d = CHR 0x0A then rev cur # splitlines_from [] cs
      else if is_linebreak c then rev cur # splitlines_from [] (d # cs)
      else splitlines_from (c # cur) (d # cs))"

definition splitlines :: "string \<Rightarrow> string list" where
  "splitlines s = splitlines_from [] s"

text \<open>\<^verbatim>\<open>s.split(sep)\<close> for a separator of one character: every separator ends a field.\<close>

fun split_from :: "char \<Rightarrow> string \<Rightarrow> string \<Rightarrow> string list" where
  "split_from sep cur [] = [rev cur]"
| "split_from sep cur (c # cs) =
     (if c = sep then rev cur # split_from sep [] cs else split_from sep (c # cur) cs)"

definition split :: "string \<Rightarrow> char \<Rightarrow> string list" where
  "split s sep = split_from sep [] s"

text \<open>\<^verbatim>\<open>s.partition(sep)\<close>: the text before the first separator, the separator, the rest.\<close>

definition partition_str :: "string \<Rightarrow> char \<Rightarrow> string \<times> string \<times> string" where
  "partition_str s sep =
     (case dropWhile (\<lambda>c. c \<noteq> sep) s of
        [] \<Rightarrow> (s, [], [])
      | c # rest \<Rightarrow> (takeWhile (\<lambda>c. c \<noteq> sep) s, [c], rest))"

text \<open>\<^verbatim>\<open>s.replace("up ", "")\<close>: every occurrence, found from the left, is removed.\<close>

fun remove_up :: "string \<Rightarrow> string" where
  "remove_up (a # b # c # r) =
     (if a = CHR ''u'' \<and> b = CHR ''p'' \<and> c = CHR '' '' then remove_up r
      else a # remove_up (b # c # r))"
| "remove_up s = s"

definition TAB :: char where
  "TAB = CHR 0x09"

section \<open>Wi-Fi reconciliation: the task of \<^verbatim>\<open>WifiScreen.refresh_networks\<close>\<close>

text \<open>
  A scan backend returns a dictionary from SSID to \<^verbatim>\<open>{"signal": int, "security": str}\<close>.
  Python dictionaries keep insertion order and \<^verbatim>\<open>refresh_networks\<close> iterates over them,
  so a dictionary is an association list; \<^verbatim>\<open>d[k] = v\<close> is \<^const>\<open>AList.update\<close>, which
  replaces the value in place when the key is present and appends the pair otherwise.
  An entry of \<^verbatim>\<open>in_range\<close> has the two fields of the scan information and two more.
\<close>

record scan_info =
  signal :: int
  security :: string

record network_entry = scan_info +
  ssid :: string
  current :: bool

type_synonym scan_result = "(string \<times> scan_info) list"

text \<open>
  The body of the inner loop,
  \<^verbatim>\<open>if ssid not in merged or info["signal"] > merged[ssid]["signal"]: merged[ssid] = info\<close>,
  and the two loops \<^verbatim>\<open>for src in (nm, wp): for ssid, info in src.items()\<close>.
\<close>

definition merge_entry :: "scan_result \<Rightarrow> string \<times> scan_info \<Rightarrow> scan_result" where
  "merge_entry merged item =
     (case map_of merged (fst item) of
        None \<Rightarrow> AList.update (fst item) (snd item) merged
      | Some old \<Rightarrow>
          if signal (snd item) > signal old
          then AList.update (fst item) (snd item) merged
          else merged)"

definition merge_scans :: "scan_result \<Rightarrow> scan_result \<Rightarrow> scan_result" where
  "merge_scans nm wp = foldl (\<lambda>merged src. foldl merge_entry merged src) [] [nm, wp]"

text \<open>
  One pass of the loop that fills \<^verbatim>\<open>in_range\<close>: \<^verbatim>\<open>s = ssid.strip() if ssid else ""\<close>, and
  an entry is appended when \<^verbatim>\<open>s and s in saved\<close>.
\<close>

definition in_range_entry :: "string set \<Rightarrow> string \<Rightarrow> string \<times> scan_info \<Rightarrow> network_entry list" where
  "in_range_entry saved current_ssid item =
     (let s = (if fst item \<noteq> [] then strip (fst item) else [])
      in if s \<noteq> [] \<and> s \<in> saved
         then [\<lparr>signal = signal (snd item), security = security (snd item),
                ssid = s, current = (s = current_ssid)\<rparr>]
         else [])"

definition in_range_entries :: "string set \<Rightarrow> string \<Rightarrow> scan_result \<Rightarrow> network_entry list" where
  "in_range_entries saved current_ssid merged =
     concat (map (in_range_entry saved current_ssid) merged)"

text \<open>
  \<^verbatim>\<open>in_range.sort(key=lambda x: (x["current"] is False, -x["signal"]))\<close>. Python's sort is
  stable and compares the key tuples lexicographically, with \<^verbatim>\<open>False < True\<close>;
  \<^const>\<open>sort_key\<close> is a stable insertion sort and pairs are ordered lexicographically.
\<close>

definition sort_in_range :: "network_entry list \<Rightarrow> network_entry list" where
  "sort_in_range xs = sort_key (\<lambda>x. (current x = False, - signal x)) xs"

text \<open>
  The local variables of \<^verbatim>\<open>_task\<close> when it returns; the dictionary it returns holds the
  last two. Its inputs are what the four backends returned (with \<^verbatim>\<open>nm\<close> already empty
  when \<^verbatim>\<open>nmcli\<close> is not installed) and the stripped SSID of the current association.
  Python's \<^verbatim>\<open>sorted\<close> on strings is the lexicographic order on code points.
\<close>

record refresh_locals =
  saved :: "string set"
  merged :: scan_result
  in_range :: "network_entry list"
  out_of_range :: "string list"

definition refresh_task ::
  "string set \<Rightarrow> string set \<Rightarrow> scan_result \<Rightarrow> scan_result \<Rightarrow> string \<Rightarrow> refresh_locals" where
  "refresh_task saved_wpa saved_nm nm wp current_ssid =
     (let saved = strip ` saved_wpa \<union> strip ` saved_nm;
          merged = merge_scans nm wp;
          in_range = sort_in_range (in_range_entries saved current_ssid merged);
          in_range_names = ssid ` set in_range;
          out_of_range = sorted_list_of_set
            ((saved - in_range_names) - (if current_ssid \<noteq> [] then {current_ssid} else {}))
      in \<lparr>saved = saved, merged = merged, in_range = in_range, out_of_range = out_of_range\<rparr>)"

text \<open>Two scan results, used to evaluate the task on concrete input.\<close>

definition example_nm :: scan_result where
  "example_nm = [(''Home'', \<lparr>signal = 80, security = ''WPA2''\<rparr>),
                 (''Cafe'', \<lparr>signal = 60, security = []\<rparr>)]"

definition example_wp :: scan_result where
  "example_wp = [(''Lab'', \<lparr>signal = 60, security = ''[ESS]''\<rparr>),
                 (''Home'', \<lparr>signal = 80, security = ''[WPA2-PSK-CCMP][ESS]''\<rparr>),
                 (''Cafe'', \<lparr>signal = 70, security = ''[ESS]''\<rparr>)]"

section \<open>External commands\<close>

text \<open>
  The probes call external tools through \<^verbatim>\<open>subprocess.run\<close>. What a launched command does
  is an input of the model: it completes with a return code and its standard output, or the
  timeout expires. \<^verbatim>\<open>installed\<close> answers \<^verbatim>\<open>shutil.which(name) is not None\<close>.
\<close>

datatype proc_result = Completed int string | Timed_out

record system =
  installed :: "string \<Rightarrow> bool"
  proc :: "string list \<Rightarrow> proc_result"

definition has_cmd :: "system \<Rightarrow> string \<Rightarrow> bool" where
  "has_cmd sys name = installed sys name"

text \<open>
  \<^verbatim>\<open>run_cmd\<close> runs with \<^verbatim>\<open>check=True\<close>: a return code other than 0 raises
  \<^verbatim>\<open>CalledProcessError\<close>, and both that and \<^verbatim>\<open>TimeoutExpired\<close> are caught and give the
  empty string; otherwise the output is returned stripped. This is the value of the call
  for a command that starts; the exceptions that the call does not catch are added below.
\<close>

definition run_cmd :: "system \<Rightarrow> string list \<Rightarrow> string" where
  "run_cmd sys cmd =
     (case proc sys cmd of
        Completed returncode stdout \<Rightarrow> if returncode = 0 then strip stdout else []
      | Timed_out \<Rightarrow> [])"

text \<open>
  The exceptions of the model that are instances of \<^verbatim>\<open>Exception\<close>: the timeout of
  \<^verbatim>\<open>subprocess.run\<close>, a \<^verbatim>\<open>RuntimeError\<close> with its message, a \<^verbatim>\<open>ValueError\<close>, and
  any other one under the name of its class.
\<close>

datatype exn = TimeoutExpired | RuntimeError string | ValueError | Other_exception string

text \<open>
  \<^verbatim>\<open>subprocess.run\<close> can also fail without the command having run to its end or to the
  timeout: it raises \<^verbatim>\<open>FileNotFoundError\<close> or another \<^verbatim>\<open>OSError\<close> when the program
  cannot be started, and \<^verbatim>\<open>UnicodeDecodeError\<close> when the output is not text. The two
  handlers of \<^verbatim>\<open>run_cmd\<close> name \<^verbatim>\<open>TimeoutExpired\<close> and \<^verbatim>\<open>CalledProcessError\<close>, so
  such an exception leaves \<^verbatim>\<open>run_cmd\<close>. A host is a system together with the commands on
  which \<^verbatim>\<open>subprocess.run\<close> raises such an exception, and \<open>run_cmd_on\<close> is
  \<^verbatim>\<open>run_cmd\<close> on a host: it raises what \<^verbatim>\<open>subprocess.run\<close> raises and it does not
  catch, and returns the value of \<^const>\<open>run_cmd\<close> otherwise.
\<close>

record host =
  launched :: system
  raises :: "string list \<Rightarrow> exn option"

definition run_cmd_on :: "host \<Rightarrow> string list \<Rightarrow> exn + string" where
  "run_cmd_on h cmd =
     (case raises h cmd of
        Some e \<Rightarrow> Inl e
      | None \<Rightarrow> Inr (run_cmd (launched h) cmd))"

section \<open>Saved networks\<close>

text \<open>\<^verbatim>\<open>d.setdefault(k, v)\<close> on an insertion-ordered dictionary.\<close>

definition setdefault :: "'k \<Rightarrow> 'v \<Rightarrow> ('k \<times> 'v) list \<Rightarrow> ('k \<times> 'v) list" where
  "setdefault k v d = (case map_of d k of None \<Rightarrow> d @ [(k, v)] | Some _ \<Rightarrow> d)"

definition list_networks_cmd :: "string \<Rightarrow> string list" where
  "list_networks_cmd iface = [''sudo'', ''wpa_cli'', ''-i'', iface, ''list_networks'']"

text \<open>One pass of the loop of \<^verbatim>\<open>get_saved_networks_wpa_cli\<close> over the lines after the header.\<close>

definition wpa_saved_row ::
  "string set \<times> (string \<times> string) list \<Rightarrow> string \<Rightarrow> string set \<times> (string \<times> string) list" where
  "wpa_saved_row acc line =
     (case split line TAB of
        nid # name # _ \<Rightarrow>
          if name \<noteq> []
          then (insert (strip name) (fst acc), setdefault (strip name) nid (snd acc))
          else acc
      | _ \<Rightarrow> acc)"

text \<open>
  \<^verbatim>\<open>get_saved_networks_wpa_cli\<close> calls \<^verbatim>\<open>run_cmd\<close> outside any \<^verbatim>\<open>try\<close>, so an
  exception that leaves \<^verbatim>\<open>run_cmd\<close> leaves this function too.
\<close>

definition get_saved_networks_wpa_cli ::
  "host \<Rightarrow> string \<Rightarrow> exn + string set \<times> (string \<times> string) list" where
  "get_saved_networks_wpa_cli h iface =
     (case run_cmd_on h (list_networks_cmd iface) of
        Inl e \<Rightarrow> Inl e
      | Inr out \<Rightarrow>
          Inr (if out = [] then ({}, [])
               else foldl wpa_saved_row ({}, []) (drop 1 (splitlines out))))"

text \<open>
  \<^verbatim>\<open>get_saved_networks_nmcli\<close> returns the empty set when \<^verbatim>\<open>nmcli\<close> is not installed.
  Otherwise it lists the connections (with \<^verbatim>\<open>subprocess.run\<close>, without \<^verbatim>\<open>check\<close>),
  keeps the names of the Wi-Fi connections and asks for the SSID of each with
  \<^verbatim>\<open>run_cmd\<close>. All of this is inside a \<^verbatim>\<open>try\<close> whose handler names \<^verbatim>\<open>Exception\<close>,
  after which the function returns the set collected so far: the empty set when listing
  the connections raised, the SSIDs of the connections before the one whose query raised.
\<close>

definition nmcli_list_cmd :: "string list" where
  "nmcli_list_cmd = [''nmcli'', ''-t'', ''-f'', ''NAME,TYPE'', ''connection'', ''show'']"

definition nmcli_ssid_cmd :: "string \<Rightarrow> string list" where
  "nmcli_ssid_cmd name =
     [''nmcli'', ''-s'', ''-g'', ''802-11-wireless.ssid'', ''connection'', ''show'', name]"

definition nmcli_wifi_names :: "string \<Rightarrow> string list" where
  "nmcli_wifi_names stdout =
     concat (map (\<lambda>line.
        if line = [] then []
        else (case partition_str line (CHR '':'') of
                (name, _, typ) \<Rightarrow>
                  if typ = ''wifi'' \<or> typ = ''802-11-wireless'' then [name] else []))
       (splitlines stdout))"

fun nmcli_saved_ssids :: "host \<Rightarrow> string set \<Rightarrow> string list \<Rightarrow> string set" where
  "nmcli_saved_ssids h ssids [] = ssids"
| "nmcli_saved_ssids h ssids (name # names) =
     (case run_cmd_on h (nmcli_ssid_cmd name) of
        Inl e \<Rightarrow> ssids
      | Inr out \<Rightarrow>
          nmcli_saved_ssids h (if out \<noteq> [] then insert (strip out) ssids else ssids) names)"

definition get_saved_networks_nmcli :: "host \<Rightarrow> string set" where
  "get_saved_networks_nmcli h =
     (if \<not> has_cmd (launched h) ''nmcli'' then {}
      else (case raises h nmcli_list_cmd of
              Some e \<Rightarrow> {}
            | None \<Rightarrow>
                (case proc (launched h) nmcli_list_cmd of
                   Timed_out \<Rightarrow> {}
                 | Completed returncode stdout \<Rightarrow>
                     if returncode \<noteq> 0 \<or> stdout = [] then {}
                     else nmcli_saved_ssids h {} (nmcli_wifi_names stdout))))"

text \<open>
  The task of \<^verbatim>\<open>refresh_networks\<close> on a host, statement by statement: the saved networks
  of \<^verbatim>\<open>wpa_cli\<close>, those of \<^verbatim>\<open>nmcli\<close>, the scan of \<^verbatim>\<open>nmcli\<close> when it is installed,
  the scan of \<^verbatim>\<open>wpa_cli\<close>, and the reconciliation. \<open>scan_nm\<close> and \<open>scan_wp\<close> are
  what \<^verbatim>\<open>scan_nmcli(iface)\<close> and \<^verbatim>\<open>scan_wpa_cli(iface)\<close> return or raise;
  \<^verbatim>\<open>current_ssid = (STATE.client_ssid or "").strip()\<close>. The task has no handler of its
  own: the first exception ends it, and the completion of \<^verbatim>\<open>refresh_networks\<close> then
  shows \<^verbatim>\<open>Scan failed\<close> in place of the networks.
\<close>

definition refresh_networks_task ::
  "host \<Rightarrow> string \<Rightarrow> string \<Rightarrow> exn + scan_result \<Rightarrow> exn + scan_result \<Rightarrow> exn + refresh_locals" where
  "refresh_networks_task h iface client_ssid scan_nm scan_wp =
     (let current_ssid = strip client_ssid
      in case get_saved_networks_wpa_cli h iface of
           Inl e \<Rightarrow> Inl e
         | Inr (saved_wpa, ssid_to_id) \<Rightarrow>
             (let saved_nm = get_saved_networks_nmcli h
              in case (if has_cmd (launched h) ''nmcli'' then scan_nm else Inr []) of
                   Inl e \<Rightarrow> Inl e
                 | Inr nm \<Rightarrow>
                     (case scan_wp of
                        Inl e \<Rightarrow> Inl e
                      | Inr wp \<Rightarrow> Inr (refresh_task saved_wpa saved_nm nm wp current_ssid))))"

text \<open>
  Hosts for evaluation. On the first both saved-network backends answer. On the second
  every command runs into its timeout. On the third \<^verbatim>\<open>sudo\<close> cannot be started, so the
  command of \<^verbatim>\<open>get_saved_networks_wpa_cli\<close> raises \<^verbatim>\<open>FileNotFoundError\<close>, while
  \<^verbatim>\<open>nmcli\<close>, which \<^verbatim>\<open>get_saved_networks_nmcli\<close> calls without \<^verbatim>\<open>sudo\<close>, answers as
  on the first.
\<close>

definition example_system :: system where
  "example_system =
     \<lparr>installed = (\<lambda>name. name = ''nmcli''),
      proc = (\<lambda>cmd.
        if cmd = list_networks_cmd ''wlan0''
        then Completed 0
          (''network id / ssid / bssid / flags'' @ [CHR 0x0A]
           @ ''0'' @ [TAB] @ ''Home'' @ [TAB] @ ''any'' @ [TAB] @ ''[CURRENT]'' @ [CHR 0x0A]
           @ ''1'' @ [TAB] @ ''Office'' @ [TAB] @ ''any'' @ [TAB] @ [CHR 0x0A])
        else if cmd = nmcli_list_cmd
        then Completed 0 (''Cafe net:802-11-wireless'' @ [CHR 0x0A] @ ''eth:802-3-ethernet'' @ [CHR 0x0A])
        else if cmd = nmcli_ssid_cmd ''Cafe net''
        then Completed 0 (''Cafe'' @ [CHR 0x0A])
        else Completed 1 [])\<rparr>"

definition example_host :: host where
  "example_host = \<lparr>launched = example_system, raises = (\<lambda>cmd. None)\<rparr>"

definition failing_host :: host where
  "failing_host =
     \<lparr>launched = \<lparr>installed = (\<lambda>name. name = ''nmcli''), proc = (\<lambda>cmd. Timed_out)\<rparr>,
      raises = (\<lambda>cmd. None)\<rparr>"

definition host_without_sudo :: host where
  "host_without_sudo =
     \<lparr>launched = example_system,
      raises = (\<lambda>cmd. if take 1 cmd = [''sudo''] then Some (Other_exception ''FileNotFoundError'')
                       else None)\<rparr>"

section \<open>The Kivy clock and \<^verbatim>\<open>run_bg\<close>\<close>

text \<open>
  The program hands work back to the user-interface thread only through Kivy's \<^verbatim>\<open>Clock\<close>.
  The model of the clock keeps the time of the last frame in seconds, the resolution of the
  clock, and the events scheduled so far, each with the time at which its timeout ends, its
  callback and whether it is still to run. \<^verbatim>\<open>schedule_once\<close> appends an event, whose
  timeout starts at the time of the last frame, and returns its handle (its position);
  \<^verbatim>\<open>cancel\<close> unschedules an event. The callbacks run on the thread that runs the frames.

  A frame at time \<open>t\<close> runs, in the order of scheduling and each once, the events still to
  run of whose timeout no more than the resolution remains: Kivy leaves an event for a
  later frame only while the time since the start of its timeout is less than the timeout
  minus the resolution. The resolution is a property of the clock and is not negative; Kivy
  derives it from the \<^verbatim>\<open>maxfps\<close> setting as \<open>1 / (3 maxfps)\<close>, which is \<open>1 / 180\<close> of a
  second with the default of 60 frames per second, a setting the program leaves alone.
\<close>

record 'c clock =
  clock_time :: real
  clock_resolution :: real
  clock_events :: "(real \<times> 'c \<times> bool) list"

definition default_resolution :: real where
  "default_resolution = 1 / (3 * 60)"

definition clock_init :: "real \<Rightarrow> real \<Rightarrow> 'c clock" where
  "clock_init resolution t0 =
     \<lparr>clock_time = t0, clock_resolution = resolution, clock_events = []\<rparr>"

definition schedule_once :: "'c \<Rightarrow> real \<Rightarrow> 'c clock \<Rightarrow> nat \<times> 'c clock" where
  "schedule_once callback timeout clk =
     (length (clock_events clk),
      clk\<lparr>clock_events := clock_events clk @ [(clock_time clk + timeout, callback, True)]\<rparr>)"

definition cancel :: "nat \<Rightarrow> 'c clock \<Rightarrow> 'c clock" where
  "cancel h clk =
     (if h < length (clock_events clk)
      then clk\<lparr>clock_events := (clock_events clk)
             [h := (case clock_events clk ! h of (due, callback, _) \<Rightarrow> (due, callback, False))]\<rparr>
      else clk)"

definition tick :: "real \<Rightarrow> 'c clock \<Rightarrow> 'c list \<times> 'c clock" where
  "tick t clk =
     (let t' = max t (clock_time clk);
          r = clock_resolution clk
      in (map (\<lambda>(due, callback, pending). callback)
            (filter (\<lambda>(due, callback, pending). pending \<and> due - r \<le> t') (clock_events clk)),
          clk\<lparr>clock_time := t',
              clock_events := map (\<lambda>(due, callback, pending). (due, callback, pending \<and> \<not> due - r \<le> t'))
                                (clock_events clk)\<rparr>))"

text \<open>
  \<^verbatim>\<open>run_bg(fn, on_done)\<close> starts a thread that runs \<^verbatim>\<open>_worker\<close>. The call \<^verbatim>\<open>fn()\<close>
  returns a value, raises an instance of \<^verbatim>\<open>Exception\<close>, raises an exception that is not
  one, or never ends. Python has three classes of exceptions outside \<^verbatim>\<open>Exception\<close>:
  \<^verbatim>\<open>SystemExit\<close> (which \<^verbatim>\<open>sys.exit()\<close> raises), \<^verbatim>\<open>KeyboardInterrupt\<close> and
  \<^verbatim>\<open>GeneratorExit\<close>.
\<close>

datatype base_exception = SystemExit | KeyboardInterrupt | GeneratorExit

datatype 'r body = Returns 'r | Raises exn | Raises_base base_exception | Never_returns

text \<open>
  The handler of \<^verbatim>\<open>_worker\<close> names \<^verbatim>\<open>Exception\<close>. When the body returns or raises an
  instance of it, \<^verbatim>\<open>_worker\<close> sets \<^verbatim>\<open>result\<close> and \<^verbatim>\<open>err\<close> accordingly, schedules
  \<^verbatim>\<open>_after\<close> with timeout 0 and ends. An exception outside \<^verbatim>\<open>Exception\<close> passes the
  handler and leaves \<^verbatim>\<open>_worker\<close> before it schedules anything, and so ends the thread;
  with a body that never ends the thread stays in the call. \<^verbatim>\<open>_worker\<close> touches nothing
  but the clock. \<^verbatim>\<open>_after\<close> calls \<^verbatim>\<open>on_done(result, err)\<close> if \<^verbatim>\<open>on_done\<close> was given.
  A completion acts on the state \<open>'m\<close> of the user-interface thread.
\<close>

datatype worker_end = Worker_returned | Worker_raised base_exception | Worker_running

definition after ::
  "('r option \<Rightarrow> exn option \<Rightarrow> 'm \<Rightarrow> 'm) option \<Rightarrow> 'r option \<Rightarrow> exn option \<Rightarrow> 'm \<Rightarrow> 'm" where
  "after on_done result err m = (case on_done of None \<Rightarrow> m | Some f \<Rightarrow> f result err m)"

definition run_bg_worker ::
  "'r body \<Rightarrow> ('r option \<Rightarrow> exn option \<Rightarrow> 'm \<Rightarrow> 'm) option \<Rightarrow> ('m \<Rightarrow> 'm) clock
     \<Rightarrow> worker_end \<times> ('m \<Rightarrow> 'm) clock" where
  "run_bg_worker fn on_done clk =
     (case fn of
        Returns v \<Rightarrow>
          (Worker_returned, snd (schedule_once (after on_done (Some v) None) 0 clk))
      | Raises e \<Rightarrow>
          (Worker_returned, snd (schedule_once (after on_done None (Some e)) 0 clk))
      | Raises_base b \<Rightarrow> (Worker_raised b, clk)
      | Never_returns \<Rightarrow> (Worker_running, clk))"

text \<open>A frame on the user-interface thread: the due callbacks run, in order, on its state.\<close>

definition run_frame :: "real \<Rightarrow> ('m \<Rightarrow> 'm) clock \<times> 'm \<Rightarrow> ('m \<Rightarrow> 'm) clock \<times> 'm" where
  "run_frame t cm =
     (case tick t (fst cm) of
        (fired, clk') \<Rightarrow> (clk', foldl (\<lambda>m callback. callback m) (snd cm) fired))"

text \<open>A completion that records the arguments of each of its calls.\<close>

definition record_call ::
  "'r option \<Rightarrow> exn option \<Rightarrow> ('r option \<times> exn option) list \<Rightarrow> ('r option \<times> exn option) list" where
  "record_call result err calls = calls @ [(result, err)]"

definition run_frames :: "real list \<Rightarrow> ('m \<Rightarrow> 'm) clock \<times> 'm \<Rightarrow> ('m \<Rightarrow> 'm) clock \<times> 'm" where
  "run_frames ts cm = foldl (\<lambda>cm t. run_frame t cm) cm ts"

text \<open>The callbacks that a sequence of frames runs, in the order in which they run.\<close>

fun frames_fired :: "real list \<Rightarrow> 'c clock \<Rightarrow> 'c list" where
  "frames_fired [] clk = []"
| "frames_fired (t # ts) clk = fst (tick t clk) @ frames_fired ts (snd (tick t clk))"

text \<open>No event of the clock is still to run.\<close>

definition all_done :: "'c clock \<Rightarrow> bool" where
  "all_done clk = (\<forall>ev\<in>set (clock_events clk). \<not> snd (snd ev))"

section \<open>Connecting to a saved network\<close>

text \<open>
  \<^verbatim>\<open>connect_wpa_cli\<close> looks for the network id in the lines after the header of
  \<^verbatim>\<open>list_networks\<close>: the loop stops at the first line with at least two fields whose second
  field is the wanted SSID, and takes its first field.
\<close>

fun find_network_id :: "string \<Rightarrow> string list \<Rightarrow> string option" where
  "find_network_id wanted [] = None"
| "find_network_id wanted (line # lines) =
     (case split line TAB of
        nid # name # _ \<Rightarrow> if name = wanted then Some nid else find_network_id wanted lines
      | _ \<Rightarrow> find_network_id wanted lines)"

definition select_network_cmd :: "string \<Rightarrow> string \<Rightarrow> string list" where
  "select_network_cmd iface nid = [''sudo'', ''wpa_cli'', ''-i'', iface, ''select_network'', nid]"

definition enable_network_cmd :: "string \<Rightarrow> string \<Rightarrow> string list" where
  "enable_network_cmd iface nid = [''sudo'', ''wpa_cli'', ''-i'', iface, ''enable_network'', nid]"

definition save_config_cmd :: "string \<Rightarrow> string list" where
  "save_config_cmd iface = [''sudo'', ''wpa_cli'', ''-i'', iface, ''save_config'']"

text \<open>
  The function returns its Boolean; the model adds the commands it has run, in order.
  \<^verbatim>\<open>if not nid\<close> holds for \<^verbatim>\<open>None\<close> and for the empty string. The outputs of the last
  three commands are bound to \<^verbatim>\<open>_\<close> in the source and to unused names here.
\<close>

definition connect_wpa_cli :: "system \<Rightarrow> string \<Rightarrow> string \<Rightarrow> bool \<times> string list list" where
  "connect_wpa_cli sys iface wanted =
     (let out = run_cmd sys (list_networks_cmd iface)
      in if out = [] then (False, [list_networks_cmd iface])
         else (case find_network_id wanted (drop 1 (splitlines out)) of
                 None \<Rightarrow> (False, [list_networks_cmd iface])
               | Some nid \<Rightarrow>
                   if nid = [] then (False, [list_networks_cmd iface])
                   else (let out1 = run_cmd sys (select_network_cmd iface nid);
                             out2 = run_cmd sys (enable_network_cmd iface nid);
                             out3 = run_cmd sys (save_config_cmd iface)
                         in (True, [list_networks_cmd iface, select_network_cmd iface nid,
                                    enable_network_cmd iface nid, save_config_cmd iface]))))"

text \<open>A line whose fields, split at tabs, are at least two with the wanted SSID second.\<close>

definition row_has_ssid :: "string \<Rightarrow> string \<Rightarrow> bool" where
  "row_has_ssid wanted line =
     (case split line TAB of nid # name # _ \<Rightarrow> name = wanted | _ \<Rightarrow> False)"

definition row_network_id :: "string \<Rightarrow> string" where
  "row_network_id line = (case split line TAB of nid # _ \<Rightarrow> nid | _ \<Rightarrow> [])"

text \<open>
  \<^verbatim>\<open>connect_nmcli\<close> runs \<^verbatim>\<open>subprocess.run\<close> without \<^verbatim>\<open>check\<close> and without a handler:
  a timeout leaves the function as an exception, a return code other than 0 gives
  \<^verbatim>\<open>False\<close>.
\<close>

definition nmcli_connect_cmd :: "string \<Rightarrow> string \<Rightarrow> string list" where
  "nmcli_connect_cmd iface wanted =
     [''sudo'', ''nmcli'', ''device'', ''wifi'', ''connect'', wanted, ''ifname'', iface]"

definition connect_nmcli :: "system \<Rightarrow> string \<Rightarrow> string \<Rightarrow> exn + bool" where
  "connect_nmcli sys iface wanted =
     (case proc sys (nmcli_connect_cmd iface wanted) of
        Timed_out \<Rightarrow> Inl TimeoutExpired
      | Completed returncode stdout \<Rightarrow> if returncode \<noteq> 0 then Inr False else Inr True)"

text \<open>
  The task of \<^verbatim>\<open>WifiScreen._connect_to\<close>, with the commands it has run. The pause of one
  second before it returns is not modelled. The commands of a connection attempt are taken
  to start, so \<^verbatim>\<open>run_cmd\<close> returns and \<^verbatim>\<open>connect_nmcli\<close> raises nothing but the
  timeout.
\<close>

definition connect_task :: "system \<Rightarrow> string \<Rightarrow> string \<Rightarrow> (exn + bool) \<times> string list list" where
  "connect_task sys iface wanted =
     (case connect_wpa_cli sys iface wanted of
        (ok, cmds) \<Rightarrow>
          if \<not> ok \<and> has_cmd sys ''nmcli''
          then (case connect_nmcli sys iface wanted of
                  Inl e \<Rightarrow> (Inl e, cmds @ [nmcli_connect_cmd iface wanted])
                | Inr ok' \<Rightarrow>
                    (if \<not> ok' then Inl (RuntimeError ''Failed to connect'') else Inr True,
                     cmds @ [nmcli_connect_cmd iface wanted]))
          else (if \<not> ok then Inl (RuntimeError ''Failed to connect'') else Inr True, cmds))"

text \<open>
  What the screen does on the user-interface thread is recorded as a list of effects:
  the busy indicator, the error message with its text, \<^verbatim>\<open>STATE.update_async()\<close>, the
  geolocation lookup scheduled after a delay, and the change to the main screen. The
  screen keeps its \<^verbatim>\<open>_connecting\<close> flag and may or may not have a manager.
\<close>

datatype ui_effect =
  Busy_on | Busy_off | Error_message string | State_update_async
  | Geoip_lookup_after real | Screen_main

record wifi_ui =
  connecting :: bool
  has_manager :: bool
  effects :: "ui_effect list"

definition connect_done :: "string \<Rightarrow> bool option \<Rightarrow> exn option \<Rightarrow> wifi_ui \<Rightarrow> wifi_ui" where
  "connect_done wanted result err ui =
     (let ui1 = ui\<lparr>effects := effects ui @ [Busy_off], connecting := False\<rparr>
      in if err \<noteq> None
         then ui1\<lparr>effects := effects ui1 @ [Error_message (''Failed to connect to:'' @ [CHR 0x0A] @ wanted)]\<rparr>
         else ui1\<lparr>effects := effects ui1 @ [State_update_async, Geoip_lookup_after 1]
                     @ (if has_manager ui1 then [Screen_main] else [])\<rparr>)"

text \<open>
  The task as a body for \<^verbatim>\<open>run_bg\<close>: every command it runs has a timeout, so it ends,
  and what it raises is an instance of \<^verbatim>\<open>Exception\<close>.
\<close>

definition task_body :: "exn + 'r \<Rightarrow> 'r body" where
  "task_body outcome = (case outcome of Inl e \<Rightarrow> Raises e | Inr v \<Rightarrow> Returns v)"

text \<open>
  One call of \<^verbatim>\<open>_connect_to\<close> and its completion: the guard, the flag and the busy
  indicator on the user-interface thread, the task on the worker of \<^verbatim>\<open>run_bg\<close>, and the
  completion in the next frame, at time \<open>t\<close>, of a clock on which nothing else is to run.
  The result holds the screen, the commands run, and the task's outcome (\<open>None\<close> when the
  guard rejected the call).
\<close>

definition connect_to ::
  "system \<Rightarrow> string \<Rightarrow> string \<Rightarrow> real \<Rightarrow> wifi_ui \<Rightarrow> wifi_ui \<times> string list list \<times> (exn + bool) option" where
  "connect_to sys iface wanted t ui =
     (if connecting ui then (ui, [], None)
      else (let ui1 = ui\<lparr>connecting := True, effects := effects ui @ [Busy_on]\<rparr>
            in (case connect_task sys iface wanted of
                  (outcome, cmds) \<Rightarrow>
                    (snd (run_frame t
                       (snd (run_bg_worker (task_body outcome) (Some (connect_done wanted))
                               (clock_init default_resolution 0)), ui1)),
                     cmds, Some outcome))))"

text \<open>
  Systems for evaluation: on the first \<^verbatim>\<open>wpa_cli\<close> does not know the network and
  \<^verbatim>\<open>nmcli\<close> connects; on the second the row of the network has an empty id field and
  there is no \<^verbatim>\<open>nmcli\<close>; on the third \<^verbatim>\<open>wpa_cli\<close> knows the network and every later
  command times out; on the fourth every later command succeeds.
\<close>

definition office_via_nmcli :: system where
  "office_via_nmcli =
     \<lparr>installed = (\<lambda>name. name = ''nmcli''),
      proc = (\<lambda>cmd.
        if cmd = list_networks_cmd ''wlan0''
        then Completed 0
          (''network id / ssid / bssid / flags'' @ [CHR 0x0A]
           @ ''0'' @ [TAB] @ ''Home'' @ [TAB] @ ''any'' @ [TAB] @ ''[CURRENT]'')
        else if cmd = nmcli_connect_cmd ''wlan0'' ''Office''
        then Completed 0 ''Device wlan0 successfully activated''
        else Completed 1 [])\<rparr>"

definition office_row_without_id :: system where
  "office_row_without_id =
     \<lparr>installed = (\<lambda>name. False),
      proc = (\<lambda>cmd.
        if cmd = list_networks_cmd ''wlan0''
        then Completed 0
          (''network id / ssid / bssid / flags'' @ [CHR 0x0A]
           @ [TAB] @ ''Office'' @ [TAB] @ ''any'' @ [TAB] @ ''[DISABLED]'')
        else Completed 1 [])\<rparr>"

definition office_known_rest_fails :: system where
  "office_known_rest_fails =
     \<lparr>installed = (\<lambda>name. False),
      proc = (\<lambda>cmd.
        if cmd = list_networks_cmd ''wlan0''
        then Completed 0
          (''network id / ssid / bssid / flags'' @ [CHR 0x0A]
           @ ''3'' @ [TAB] @ ''Office'' @ [TAB] @ ''any'' @ [TAB] @ ''[DISABLED]'')
        else Timed_out)\<rparr>"

definition office_known_all_succeed :: system where
  "office_known_all_succeed =
     \<lparr>installed = (\<lambda>name. False),
      proc = (\<lambda>cmd.
        if cmd = list_networks_cmd ''wlan0''
        then Completed 0
          (''network id / ssid / bssid / flags'' @ [CHR 0x0A]
           @ ''3'' @ [TAB] @ ''Office'' @ [TAB] @ ''any'' @ [TAB] @ ''[DISABLED]'')
        else Completed 0 ''OK'')\<rparr>"

definition idle_ui :: wifi_ui where
  "idle_ui = \<lparr>connecting = False, has_manager = True, effects = []\<rparr>"

section \<open>The debounced geolocation lookup\<close>

text \<open>
  \<^verbatim>\<open>RaspApTouchApp\<close> keeps in \<^verbatim>\<open>_geoip_pending\<close> the clock event of the last debounce
  timer, or \<^verbatim>\<open>None\<close>. The only callback these timers have is
  \<^verbatim>\<open>lambda dt: STATE.update_geoip_async()\<close>; the model records the time of each such call.
  A clock event is a true value in Python, also after it has run, and cancelling an event
  that has run does nothing. The program also calls \<^verbatim>\<open>STATE.update_geoip_async()\<close>
  without the debounce timer: when it starts, from a periodic timer, one second after a
  successful connection and after an action on the VPN. Those lookups are not debounced and
  are not in the record of the model.
\<close>

datatype app_callback = Update_geoip_async

record app =
  app_clock :: "app_callback clock"
  geoip_pending :: "nat option"
  lookups :: "real list"

definition app_init :: "real \<Rightarrow> real \<Rightarrow> app" where
  "app_init resolution t0 =
     \<lparr>app_clock = clock_init resolution t0, geoip_pending = None, lookups = []\<rparr>"

definition trigger_geoip_soon :: "real \<Rightarrow> app \<Rightarrow> app" where
  "trigger_geoip_soon delay a =
     (let clk1 = (case geoip_pending a of Some h \<Rightarrow> cancel h (app_clock a) | None \<Rightarrow> app_clock a)
      in (case schedule_once Update_geoip_async delay clk1 of
            (h', clk2) \<Rightarrow> a\<lparr>app_clock := clk2, geoip_pending := Some h'\<rparr>))"

text \<open>
  A frame of the application runs the due timers; each calls
  \<^verbatim>\<open>STATE.update_geoip_async()\<close>, at the time of the frame.
\<close>

definition app_frame :: "real \<Rightarrow> app \<Rightarrow> app" where
  "app_frame t a =
     (case tick t (app_clock a) of
        (fired, clk') \<Rightarrow>
          a\<lparr>app_clock := clk', lookups := lookups a @ map (\<lambda>callback. clock_time clk') fired\<rparr>)"

text \<open>
  The inputs of the application: a frame at a given time, or a change of one of the bound
  properties of the state (\<^verbatim>\<open>net_status\<close>, \<^verbatim>\<open>client_ssid\<close>, \<^verbatim>\<open>vpn_status\<close>,
  \<^verbatim>\<open>vpn_name\<close>), on which \<^verbatim>\<open>_trig\<close> calls \<^verbatim>\<open>_trigger_geoip_soon(0.5)\<close>; \<open>delay\<close> stands
  for that constant. A change happens on the user-interface thread, at the time of the
  last frame.
\<close>

datatype app_input = Frame real | Trigger

fun app_step :: "real \<Rightarrow> app \<Rightarrow> app_input \<Rightarrow> app" where
  "app_step delay a (Frame t) = app_frame t a"
| "app_step delay a Trigger = trigger_geoip_soon delay a"

definition app_run :: "real \<Rightarrow> app_input list \<Rightarrow> app \<Rightarrow> app" where
  "app_run delay inputs a = foldl (app_step delay) a inputs"

text \<open>
  A run of the application: frames at the given times, and in each frame that is marked a
  change of a bound property, which happens after the timers of that frame have run. Several
  changes in one frame are several marked entries with the same time. \<open>trigger_times\<close>
  are the times of the marked frames.
\<close>

definition session :: "(real \<times> bool) list \<Rightarrow> app_input list" where
  "session xs = concat (map (\<lambda>(t, changed). Frame t # (if changed then [Trigger] else [])) xs)"

definition trigger_times :: "(real \<times> bool) list \<Rightarrow> real list" where
  "trigger_times xs = map fst (filter snd xs)"

text \<open>The times do not decrease and each is less than the window after the one before.\<close>

fun in_window :: "real \<Rightarrow> real list \<Rightarrow> bool" where
  "in_window window (a # b # ts) = (a \<le> b \<and> b - a < window \<and> in_window window (b # ts))"
| "in_window window ts = True"

text \<open>
  Exactly one timer is still to run: the last one scheduled, due at \<open>d\<close>, which is the one
  \<^verbatim>\<open>_geoip_pending\<close> holds.
\<close>

definition armed :: "real \<Rightarrow> app \<Rightarrow> bool" where
  "armed d a =
     (clock_events (app_clock a) \<noteq> []
      \<and> last (clock_events (app_clock a)) = (d, Update_geoip_async, True)
      \<and> list_all (\<lambda>ev. \<not> snd (snd ev)) (butlast (clock_events (app_clock a)))
      \<and> geoip_pending a = Some (length (clock_events (app_clock a)) - 1))"

text \<open>Every timer that is still to run is the one \<^verbatim>\<open>_geoip_pending\<close> holds.\<close>

definition tracked :: "app \<Rightarrow> bool" where
  "tracked a =
     (\<forall>i < length (clock_events (app_clock a)).
        snd (snd (clock_events (app_clock a) ! i)) \<longrightarrow> geoip_pending a = Some i)"

section \<open>The state store \<^verbatim>\<open>UiState\<close>\<close>

text \<open>
  The Kivy properties of \<^verbatim>\<open>UiState\<close>, in the order of the class body, and their values:
  strings for a \<^verbatim>\<open>StringProperty\<close>, numbers for a \<^verbatim>\<open>NumericProperty\<close>. The store maps
  each property to its value.
\<close>

datatype ui_prop =
  Net_status | Vpn_status | Vpn_name | Ap_status | Cpu_temp | Geoip | Ap_ssid | Ip_address
  | Connected_clients | Uptime | Hostname | Client_ssid | Host_iface | Ap_iface

definition declared_props :: "ui_prop list" where
  "declared_props =
     [Net_status, Vpn_status, Vpn_name, Ap_status, Cpu_temp, Geoip, Ap_ssid, Ip_address,
      Connected_clients, Uptime, Hostname, Client_ssid, Host_iface, Ap_iface]"

definition declared_index :: "ui_prop \<Rightarrow> nat" where
  "declared_index p = length (takeWhile (\<lambda>q. q \<noteq> p) declared_props)"

datatype pyval = Str string | Num real

type_synonym ui_state = "ui_prop \<Rightarrow> pyval"

fun ui_state_init :: ui_state where
  "ui_state_init Net_status = Str ''INIT''"
| "ui_state_init Vpn_status = Str ''OFF''"
| "ui_state_init Vpn_name = Str ''None''"
| "ui_state_init Ap_status = Str ''OFF''"
| "ui_state_init Cpu_temp = Num 0"
| "ui_state_init Geoip = Str ''Unknown''"
| "ui_state_init Ap_ssid = Str ''N/A''"
| "ui_state_init Ip_address = Str ''N/A''"
| "ui_state_init Connected_clients = Num 0"
| "ui_state_init Uptime = Str ''N/A''"
| "ui_state_init Hostname = Str ''N/A''"
| "ui_state_init Client_ssid = Str ''N/A''"
| "ui_state_init Host_iface = Str ''wlan0''"
| "ui_state_init Ap_iface = Str ''wlan1''"

text \<open>
  \<^verbatim>\<open>setattr(self, k, v)\<close> on a Kivy property stores the value and notifies the observers of
  that property, unless the value equals the one already stored; then it does nothing.
  \<^verbatim>\<open>apply_snapshot\<close> does this for the items of the snapshot in their order. The model
  returns the store and the properties notified, in the order of the notifications.
\<close>

definition setattr :: "ui_state \<times> ui_prop list \<Rightarrow> ui_prop \<times> pyval \<Rightarrow> ui_state \<times> ui_prop list" where
  "setattr sn kv =
     (if fst sn (fst kv) = snd kv then sn
      else ((fst sn)(fst kv := snd kv), snd sn @ [fst kv]))"

definition apply_snapshot :: "ui_state \<Rightarrow> (ui_prop \<times> pyval) list \<Rightarrow> ui_state \<times> ui_prop list" where
  "apply_snapshot self snap = foldl setattr (self, []) snap"

text \<open>
  \<^verbatim>\<open>int(s)\<close> for a string: surrounding whitespace, an optional sign, and decimal digits
  that single underscores may separate; anything else raises \<^verbatim>\<open>ValueError\<close>.
\<close>

definition digit_val :: "char \<Rightarrow> nat option" where
  "digit_val c =
     (let n = (of_char c :: nat) in if 48 \<le> n \<and> n \<le> 57 then Some (n - 48) else None)"

fun digits_value :: "nat \<Rightarrow> bool \<Rightarrow> string \<Rightarrow> nat option" where
  "digits_value acc after_digit [] = (if after_digit then Some acc else None)"
| "digits_value acc after_digit (c # cs) =
     (if c = CHR ''_''
      then (if after_digit \<and> cs \<noteq> [] then digits_value acc False cs else None)
      else (case digit_val c of
              None \<Rightarrow> None
            | Some d \<Rightarrow> digits_value (10 * acc + d) True cs))"

definition python_int :: "string \<Rightarrow> int option" where
  "python_int s =
     (case strip s of
        [] \<Rightarrow> None
      | c # cs \<Rightarrow>
          if c = CHR ''-'' then map_option (\<lambda>n. - int n) (digits_value 0 False cs)
          else if c = CHR ''+'' then map_option int (digits_value 0 False cs)
          else map_option int (digits_value 0 False (c # cs)))"

text \<open>
  What the probes of one collection pass returned: the two results of \<^verbatim>\<open>_get_ip\<close>, the
  outputs of \<^verbatim>\<open>run_cmd\<close>, the number of active clients when the API answered with a
  dictionary holding a list or dictionary under \<^verbatim>\<open>active_clients\<close>, and the SSID of the
  cached \<^verbatim>\<open>hostapd\<close> configuration.
\<close>

record probes =
  host_ip :: "string option"
  iwgetid :: string
  hostapd_active :: string
  thermal_raw :: string
  hostname_out :: string
  uptime_out :: string
  active_clients :: "nat option"
  hostapd_ssid :: "string option"
  ap_ip :: "string option"
  openvpn_pid :: string

text \<open>
  The truth value of a value that is \<^verbatim>\<open>None\<close> or a string, and \<^verbatim>\<open>x or d\<close> for such a
  value.
\<close>

definition truthy :: "string option \<Rightarrow> bool" where
  "truthy x = (case x of None \<Rightarrow> False | Some s \<Rightarrow> s \<noteq> [])"

definition or_default :: "string option \<Rightarrow> string \<Rightarrow> string" where
  "or_default x d = (if truthy x then the x else d)"

text \<open>
  \<^verbatim>\<open>collect_snapshot\<close> assigns the keys of the snapshot one after the other, each once, so
  the items of the dictionary are in the order of the assignments. \<^verbatim>\<open>cpu_temp\<close> is
  assigned only when the thermal zone could be read, and \<^verbatim>\<open>int(raw)\<close> may raise.
\<close>

definition collect_snapshot :: "probes \<Rightarrow> ui_state \<Rightarrow> exn + (ui_prop \<times> pyval) list" where
  "collect_snapshot p self =
     (let net = (if truthy (host_ip p) then ''ON'' else ''OFF'');
          before_temp =
            [(Net_status, Str net),
             (Client_ssid, Str (if net = ''ON'' then iwgetid p else ''Disconnected'')),
             (Ap_status, Str (if hostapd_active p = ''active'' then ''ON'' else ''OFF''))];
          after_temp =
            [(Hostname, Str (if hostname_out p \<noteq> [] then hostname_out p else ''N/A'')),
             (Uptime, Str (if uptime_out p \<noteq> [] then remove_up (uptime_out p) else ''N/A'')),
             (Connected_clients, Num (case active_clients p of Some n \<Rightarrow> real n | None \<Rightarrow> 0)),
             (Ap_ssid, Str (or_default (hostapd_ssid p) ''N/A'')),
             (Ip_address, Str (or_default (ap_ip p) ''N/A''))]
            @ (if openvpn_pid p \<noteq> []
               then [(Vpn_status, Str ''ON''),
                     (Vpn_name, if self Vpn_name \<noteq> Str ''None'' then self Vpn_name else Str ''ON'')]
               else [(Vpn_status, Str ''OFF''), (Vpn_name, Str ''None'')])
      in if thermal_raw p = [] then Inr (before_temp @ after_temp)
         else (case python_int (thermal_raw p) of
                 None \<Rightarrow> Inl ValueError
               | Some n \<Rightarrow> Inr (before_temp @ [(Cpu_temp, Num (real_of_int n / 1000))] @ after_temp)))"

text \<open>The order in which \<^verbatim>\<open>collect_snapshot\<close> assigns the keys.\<close>

definition collected_props :: "ui_prop list" where
  "collected_props =
     [Net_status, Client_ssid, Ap_status, Cpu_temp, Hostname, Uptime, Connected_clients,
      Ap_ssid, Ip_address, Vpn_status, Vpn_name]"

text \<open>A collection pass on a running appliance with a client connection and a VPN.\<close>

definition example_probes :: probes where
  "example_probes =
     \<lparr>host_ip = Some ''192.168.1.23'', iwgetid = ''Home'', hostapd_active = ''active'',
      thermal_raw = ''48312'', hostname_out = ''raspap'', uptime_out = ''up 2 hours'',
      active_clients = Some 2, hostapd_ssid = Some ''raspi-webgui'',
      ap_ip = Some ''10.3.141.1'', openvpn_pid = ''812''\<rparr>"

definition example_snapshot :: "(ui_prop \<times> pyval) list" where
  "example_snapshot =
     [(Net_status, Str ''ON''), (Client_ssid, Str ''Home''), (Ap_status, Str ''ON''),
      (Cpu_temp, Num (48312 / 1000)), (Hostname, Str ''raspap''), (Uptime, Str ''2 hours''),
      (Connected_clients, Num 2), (Ap_ssid, Str ''raspi-webgui''),
      (Ip_address, Str ''10.3.141.1''), (Vpn_status, Str ''ON''), (Vpn_name, Str ''ON'')]"

section \<open>Properties of the busy indicator\<close>

lemma busy_inv_init: "busy_inv busy_init"
  by (simp add: busy_inv_def busy_init_def)

lemma busy_step_inv: "busy_inv s \<Longrightarrow> busy_inv (fst (busy_step s c))"
  by (cases c) (auto simp: busy_inv_def show_busy_indicator_def hide_busy_indicator_def Let_def)

lemma busy_foldl_inv:
  "busy_inv s \<Longrightarrow> busy_inv (foldl (\<lambda>s c. fst (busy_step s c)) s cs)"
proof (induction cs arbitrary: s)
  case Nil
  then show ?case by simp
next
  case (Cons c cs)
  from Cons.prems have "busy_inv (fst (busy_step s c))"
    by (rule busy_step_inv)
  then show ?case
    by (simp add: Cons.IH)
qed

lemma busy_after_inv: "busy_inv (busy_after cs)"
  unfolding busy_after_def by (rule busy_foldl_inv [OF busy_inv_init])

lemma busy_after_snoc: "busy_after (cs @ [c]) = fst (busy_step (busy_after cs) c)"
  by (simp add: busy_after_def)

text \<open>What one call does to the counter, in any state.\<close>

lemma busy_step_depth:
  "BUSY_DEPTH (fst (busy_step s Enter)) = BUSY_DEPTH s + 1
   \<and> BUSY_DEPTH (fst (busy_step s Exit)) = max 0 (BUSY_DEPTH s - 1)"
  by (simp add: show_busy_indicator_def hide_busy_indicator_def Let_def)

text \<open>What one call does to the window, in a state that satisfies the invariant.\<close>

lemma busy_step_ops:
  "busy_inv s \<Longrightarrow>
   snd (busy_step s Enter) = (if BUSY_DEPTH s = 0 then [Add_widget] else [])
   \<and> snd (busy_step s Exit) = (if BUSY_DEPTH s = 1 then [Remove_widget] else [])"
  by (auto simp: busy_inv_def show_busy_indicator_def hide_busy_indicator_def Let_def)

lemma busy_trace_append:
  "busy_trace s (cs @ ds) =
     busy_trace s cs @ busy_trace (foldl (\<lambda>s c. fst (busy_step s c)) s cs) ds"
  by (induction cs arbitrary: s) simp_all

lemma overlays_after_snoc:
  "overlays_after (cs @ [c]) = foldl window_step (overlays_after cs) (snd (busy_step (busy_after cs) c))"
  by (simp add: overlays_after_def busy_trace_append busy_after_def)

text \<open>The window holds one overlay when the counter is positive and none otherwise.\<close>

lemma overlays_after_depth:
  "overlays_after cs = (if 0 < BUSY_DEPTH (busy_after cs) then 1 else 0)"
proof (induction cs rule: rev_induct)
  case Nil
  show ?case
    by (simp add: overlays_after_def busy_after_def busy_init_def)
next
  case (snoc c cs)
  have inv: "busy_inv (busy_after cs)"
    by (rule busy_after_inv)
  then have nonneg: "0 \<le> BUSY_DEPTH (busy_after cs)"
    by (simp add: busy_inv_def)
  show ?case
  proof (cases c)
    case Enter
    with nonneg snoc.IH busy_step_ops [OF inv] busy_step_depth [of "busy_after cs"]
    show ?thesis
      by (simp add: overlays_after_snoc busy_after_snoc)
  next
    case Exit
    with nonneg snoc.IH busy_step_ops [OF inv] busy_step_depth [of "busy_after cs"]
    show ?thesis
      by (auto simp: overlays_after_snoc busy_after_snoc)
  qed
qed

text \<open>
  Claim C5. Start from the module's initial state, where the counter is 0 and the window
  holds no overlay, and take any finite sequence of \<^verbatim>\<open>show_busy_indicator\<close> and
  \<^verbatim>\<open>hide_busy_indicator\<close> calls. A further show adds 1 to the counter; a further hide
  subtracts 1 and floors the result at 0; so the counter is never negative. The overlay
  variable is set exactly when the counter is positive, and the window holds one overlay
  when the counter is positive and none when it is 0. A show adds the overlay to the window
  exactly when it finds the counter at 0 (and takes it to 1), and makes no other call on the
  window; a hide removes the overlay exactly when it finds the counter at 1 (and takes it
  to 0), and makes no other call on the window.
\<close>

theorem busy_guard_counter_and_visibility:
  "BUSY_DEPTH (busy_after []) = 0
   \<and> BUSY_DEPTH (busy_after (cs @ [Enter])) = BUSY_DEPTH (busy_after cs) + 1
   \<and> BUSY_DEPTH (busy_after (cs @ [Exit])) = max 0 (BUSY_DEPTH (busy_after cs) - 1)
   \<and> 0 \<le> BUSY_DEPTH (busy_after cs)
   \<and> BUSY_OVERLAY (busy_after cs) = (0 < BUSY_DEPTH (busy_after cs))
   \<and> overlays_after cs = (if 0 < BUSY_DEPTH (busy_after cs) then 1 else 0)
   \<and> snd (busy_step (busy_after cs) Enter)
       = (if BUSY_DEPTH (busy_after cs) = 0 then [Add_widget] else [])
   \<and> snd (busy_step (busy_after cs) Exit)
       = (if BUSY_DEPTH (busy_after cs) = 1 then [Remove_widget] else [])
   \<and> (Add_widget \<in> set (snd (busy_step (busy_after cs) c))) =
       (c = Enter \<and> BUSY_DEPTH (busy_after cs) = 0
        \<and> BUSY_DEPTH (fst (busy_step (busy_after cs) c)) = 1)
   \<and> (Remove_widget \<in> set (snd (busy_step (busy_after cs) c))) =
       (c = Exit \<and> BUSY_DEPTH (busy_after cs) = 1
        \<and> BUSY_DEPTH (fst (busy_step (busy_after cs) c)) = 0)"
proof -
  have inv: "busy_inv (busy_after cs)"
    by (rule busy_after_inv)
  have init: "BUSY_DEPTH (busy_after []) = 0"
    by (simp add: busy_after_def busy_init_def)
  have enter: "BUSY_DEPTH (busy_after (cs @ [Enter])) = BUSY_DEPTH (busy_after cs) + 1"
    and exit: "BUSY_DEPTH (busy_after (cs @ [Exit])) = max 0 (BUSY_DEPTH (busy_after cs) - 1)"
    using busy_step_depth [of "busy_after cs"] by (simp_all add: busy_after_snoc)
  from inv have nonneg: "0 \<le> BUSY_DEPTH (busy_after cs)"
    and flag: "BUSY_OVERLAY (busy_after cs) = (0 < BUSY_DEPTH (busy_after cs))"
    by (simp_all add: busy_inv_def)
  have window: "overlays_after cs = (if 0 < BUSY_DEPTH (busy_after cs) then 1 else 0)"
    by (rule overlays_after_depth)
  from busy_step_ops [OF inv]
  have shown: "snd (busy_step (busy_after cs) Enter)
       = (if BUSY_DEPTH (busy_after cs) = 0 then [Add_widget] else [])"
    and hidden: "snd (busy_step (busy_after cs) Exit)
       = (if BUSY_DEPTH (busy_after cs) = 1 then [Remove_widget] else [])"
    by simp_all
  have add: "(Add_widget \<in> set (snd (busy_step (busy_after cs) c))) =
       (c = Enter \<and> BUSY_DEPTH (busy_after cs) = 0
        \<and> BUSY_DEPTH (fst (busy_step (busy_after cs) c)) = 1)"
    using shown hidden busy_step_depth [of "busy_after cs"] by (cases c) auto
  have remove: "(Remove_widget \<in> set (snd (busy_step (busy_after cs) c))) =
       (c = Exit \<and> BUSY_DEPTH (busy_after cs) = 1
        \<and> BUSY_DEPTH (fst (busy_step (busy_after cs) c)) = 0)"
    using shown hidden busy_step_depth [of "busy_after cs"] by (cases c) auto
  from init enter exit nonneg flag window shown hidden add remove show ?thesis
    by (simp only: simp_thms)
qed

theorem busy_guard_counter_and_visibility_witness:
  "BUSY_DEPTH (busy_after [Enter, Enter, Exit]) = 1
   \<and> BUSY_OVERLAY (busy_after [Enter, Enter, Exit])
   \<and> overlays_after [Enter, Enter, Exit] = 1
   \<and> snd (busy_step (busy_after [Enter, Enter, Exit]) Enter) = []
   \<and> snd (busy_step (busy_after [Enter, Enter, Exit]) Exit) = [Remove_widget]
   \<and> BUSY_DEPTH (busy_after ([Enter, Enter, Exit] @ [Exit])) = 0
   \<and> BUSY_DEPTH (busy_after [Enter, Enter, Exit, Exit, Exit]) = 0
   \<and> \<not> BUSY_OVERLAY (busy_after [Enter, Enter, Exit, Exit, Exit])
   \<and> overlays_after [Enter, Enter, Exit, Exit, Exit] = 0
   \<and> snd (busy_step (busy_after [Enter, Enter, Exit, Exit, Exit]) Enter) = [Add_widget]
   \<and> snd (busy_step (busy_after [Enter, Enter, Exit, Exit, Exit]) Exit) = []"
proof -
  have d1: "BUSY_DEPTH (busy_after [Enter, Enter, Exit]) = 1"
    and d2: "BUSY_DEPTH (busy_after [Enter, Enter, Exit, Exit, Exit]) = 0"
    by (simp_all add: busy_after_def busy_init_def show_busy_indicator_def
        hide_busy_indicator_def Let_def)
  from busy_guard_counter_and_visibility [of "[Enter, Enter, Exit]" Exit] d1
    busy_guard_counter_and_visibility [of "[Enter, Enter, Exit, Exit, Exit]" Enter] d2
  show ?thesis
    by simp
qed

section \<open>Properties of the string operations\<close>

lemma strip_dropWhile: "dropWhile isspace (strip s) = strip s"
proof -
  define t where "t = dropWhile isspace s"
  define u where "u = rev (dropWhile isspace (rev t))"
  have "t = rev (takeWhile isspace (rev t) @ dropWhile isspace (rev t))"
    by (simp only: takeWhile_dropWhile_id rev_rev_ident)
  then have t: "t = u @ rev (takeWhile isspace (rev t))"
    by (simp only: rev_append u_def)
  have "u = [] \<or> \<not> isspace (hd u)"
  proof (cases "u = []")
    case True
    then show ?thesis by simp
  next
    case False
    with t have "hd u = hd t" and "t \<noteq> []"
      by (metis hd_append2, metis append_is_Nil_conv)
    moreover from \<open>t \<noteq> []\<close> have "\<not> isspace (hd t)"
      unfolding t_def by (rule hd_dropWhile)
    ultimately show ?thesis by simp
  qed
  then have "dropWhile isspace u = u"
    by (simp add: dropWhile_eq_self_iff)
  then show ?thesis
    by (simp add: strip_def u_def t_def)
qed

lemma strip_strip: "strip (strip s) = strip s"
proof -
  have "strip (strip s) = rev (dropWhile isspace (rev (strip s)))"
    by (simp add: strip_def [of "strip s"] strip_dropWhile)
  also have "\<dots> = strip s"
    by (simp add: strip_def)
  finally show ?thesis .
qed
text \<open>The definitions to unfold when the string operations are evaluated.\<close>

lemmas string_eval_defs = splitlines_def split_def partition_str_def strip_def isspace_def
  is_linebreak_def TAB_def Let_def

section \<open>Properties of the Wi-Fi reconciliation\<close>

subsection \<open>Merging the two scans\<close>

lemma merge_entry_map_of:
  "map_of (merge_entry m (k, v)) k' =
     (if k' = k
      then (case map_of m k of
              None \<Rightarrow> Some v
            | Some old \<Rightarrow> Some (if signal v > signal old then v else old))
      else map_of m k')"
  by (simp add: merge_entry_def update_conv' split: option.split)

lemma foldl_merge_entry_map_of:
  "distinct (map fst src) \<Longrightarrow>
   map_of (foldl merge_entry m src) k =
     (case map_of src k of
        None \<Rightarrow> map_of m k
      | Some v \<Rightarrow>
          (case map_of m k of
             None \<Rightarrow> Some v
           | Some old \<Rightarrow> Some (if signal v > signal old then v else old)))"
proof (induction src arbitrary: m k)
  case Nil
  then show ?case by simp
next
  case (Cons p src)
  obtain k0 v0 where p: "p = (k0, v0)"
    by (cases p)
  from Cons.prems p have d: "distinct (map fst src)" and notin: "k0 \<notin> fst ` set src"
    by simp_all
  from notin have none: "map_of src k0 = None"
    by (simp add: map_of_eq_None_iff)
  show ?case
  proof (cases "k = k0")
    case True
    with none show ?thesis
      by (simp add: p Cons.IH [OF d] merge_entry_map_of)
  next
    case False
    then show ?thesis
      by (simp add: p Cons.IH [OF d] merge_entry_map_of split: option.split)
  qed
qed

lemma merge_scans_map_of:
  assumes "distinct (map fst nm)" and "distinct (map fst wp)"
  shows "map_of (merge_scans nm wp) k =
     (case map_of wp k of
        None \<Rightarrow> map_of nm k
      | Some b \<Rightarrow>
          (case map_of nm k of
             None \<Rightarrow> Some b
           | Some a \<Rightarrow> Some (if signal b > signal a then b else a)))"
proof -
  have nm: "map_of (foldl merge_entry [] nm) k = map_of nm k"
    by (simp add: foldl_merge_entry_map_of [OF assms(1)] split: option.split)
  show ?thesis
    by (simp add: merge_scans_def foldl_merge_entry_map_of [OF assms(2)] nm split: option.split)
qed

lemma merged_refresh_task:
  "merged (refresh_task sw sn nm wp cur) = merge_scans nm wp"
  by (simp add: refresh_task_def Let_def)

text \<open>
  Claim C1. The scan results are dictionaries, so their keys are distinct. For every SSID
  that at least one of them holds, the merged dictionary of the refresh holds an entry
  whose signal is the maximum of the signals the backends report for it. The entry is
  the one of \<^verbatim>\<open>nmcli\<close> (seen first) unless \<^verbatim>\<open>wpa_cli\<close> reports a strictly higher signal, so a
  tie keeps the first-seen entry.
\<close>

theorem merged_signal_is_maximum:
  assumes "distinct (map fst nm)" and "distinct (map fst wp)"
    and "k \<in> fst ` set nm \<union> fst ` set wp"
  shows "\<exists>info. map_of (merged (refresh_task saved_wpa saved_nm nm wp current_ssid)) k = Some info
      \<and> signal info = Max (signal ` {i. (k, i) \<in> set nm \<union> set wp})
      \<and> (\<forall>a. (k, a) \<in> set nm \<longrightarrow> (\<forall>b. (k, b) \<in> set wp \<longrightarrow> signal b \<le> signal a) \<longrightarrow> info = a)
      \<and> (\<forall>b. (k, b) \<in> set wp \<longrightarrow> (\<forall>a. (k, a) \<in> set nm \<longrightarrow> signal a < signal b) \<longrightarrow> info = b)"
proof -
  have sets: "{i. (k, i) \<in> set nm \<union> set wp} = {i. map_of nm k = Some i} \<union> {i. map_of wp k = Some i}"
    using assms(1,2) by auto
  have inm: "\<And>a. ((k, a) \<in> set nm) = (map_of nm k = Some a)"
    using assms(1) by auto
  have iwp: "\<And>b. ((k, b) \<in> set wp) = (map_of wp k = Some b)"
    using assms(2) by auto
  from assms(3) have some: "map_of nm k \<noteq> None \<or> map_of wp k \<noteq> None"
    by (auto simp: map_of_eq_None_iff)
  show ?thesis
  proof (cases "map_of nm k")
    case None
    with some obtain b where b: "map_of wp k = Some b" by auto
    with None show ?thesis
      by (simp add: merged_refresh_task merge_scans_map_of [OF assms(1,2)] sets inm iwp)
  next
    case (Some a)
    show ?thesis
    proof (cases "map_of wp k")
      case None
      with Some show ?thesis
        by (simp add: merged_refresh_task merge_scans_map_of [OF assms(1,2)] sets inm iwp)
    next
      case (Some b)
      with \<open>map_of nm k = Some a\<close> have "{i. (k, i) \<in> set nm \<union> set wp} = {a, b}"
        by (auto simp: inm iwp)
      then have mx: "Max (signal ` {i. (k, i) \<in> set nm \<union> set wp}) = max (signal a) (signal b)"
        by simp
      from Some \<open>map_of nm k = Some a\<close> show ?thesis
        unfolding mx by (auto simp add: merged_refresh_task merge_scans_map_of [OF assms(1,2)] inm iwp)
    qed
  qed
qed


theorem merged_signal_is_maximum_witness:
  "distinct (map fst example_nm) \<and> distinct (map fst example_wp)
   \<and> ''Home'' \<in> fst ` set example_nm \<union> fst ` set example_wp
   \<and> map_of (merged (refresh_task {} {} example_nm example_wp [])) ''Home''
       = Some \<lparr>signal = 80, security = ''WPA2''\<rparr>"
proof -
  have h1: "distinct (map fst example_nm)"
    by (simp add: example_nm_def)
  have h2: "distinct (map fst example_wp)"
    by (simp add: example_wp_def)
  have h3: "''Home'' \<in> fst ` set example_nm \<union> fst ` set example_wp"
    by (simp add: example_nm_def)
  from merged_signal_is_maximum [OF h1 h2 h3, of "{}" "{}" "[]"]
  obtain info where m: "map_of (merged (refresh_task {} {} example_nm example_wp [])) ''Home'' = Some info"
    and tie: "\<forall>a. (''Home'', a) \<in> set example_nm \<longrightarrow>
        (\<forall>b. (''Home'', b) \<in> set example_wp \<longrightarrow> signal b \<le> signal a) \<longrightarrow> info = a"
    by blast
  from tie have "info = \<lparr>signal = 80, security = ''WPA2''\<rparr>"
    by (simp add: example_nm_def example_wp_def)
  with m h1 h2 h3 show ?thesis
    by simp
qed

subsection \<open>Order of the in-range list\<close>

lemma in_range_refresh_task:
  "in_range (refresh_task sw sn nm wp cur) =
     sort_in_range (in_range_entries (strip ` sw \<union> strip ` sn) cur (merge_scans nm wp))"
  by (simp add: refresh_task_def Let_def)

lemma sorted_current_first:
  "sorted (map (\<lambda>x. (current x = False, - signal x)) xs) \<Longrightarrow>
   xs = filter current xs @ filter (\<lambda>x. \<not> current x) xs"
proof (induction xs)
  case Nil
  then show ?case by simp
next
  case (Cons x xs)
  from Cons.prems have s: "sorted (map (\<lambda>x. (current x = False, - signal x)) xs)"
    by simp
  show ?case
  proof (cases "current x")
    case True
    with Cons.IH [OF s] show ?thesis by simp
  next
    case False
    with Cons.prems have "\<forall>y\<in>set xs. \<not> current y"
      by (auto simp: less_eq_prod_def)
    then have "filter current xs = []" and "filter (\<lambda>x. \<not> current x) xs = xs"
      by (simp_all add: filter_empty_conv filter_id_conv)
    with False show ?thesis by simp
  qed
qed

lemma sorted_signal_within_class:
  assumes "sorted (map (\<lambda>x. (current x = False, - signal x)) xs)"
  shows "sorted_wrt (\<lambda>a b. signal b \<le> signal a) (filter (\<lambda>x. current x = c) xs)"
proof -
  from assms have "sorted_wrt (\<lambda>a b. (current a = False, - signal a) \<le> (current b = False, - signal b)) xs"
    by (simp add: sorted_map)
  then have "sorted_wrt (\<lambda>a b. (current a = False, - signal a) \<le> (current b = False, - signal b))
      (filter (\<lambda>x. current x = c) xs)"
    by (rule sorted_wrt_filter)
  then show ?thesis
    by (rule sorted_wrt_mono_rel [rotated]) (auto simp: less_eq_prod_def)
qed

lemma distinct_keys_merge_entry:
  "distinct (map fst m) \<Longrightarrow> distinct (map fst (merge_entry m p))"
  by (simp add: merge_entry_def distinct_update split: option.split)

lemma keys_merge_entry: "fst ` set (merge_entry m p) \<subseteq> insert (fst p) (fst ` set m)"
  by (auto simp: merge_entry_def dom_update split: option.split if_splits)

lemma foldl_merge_entry_keys:
  "distinct (map fst m) \<Longrightarrow>
   distinct (map fst (foldl merge_entry m src))
   \<and> fst ` set (foldl merge_entry m src) \<subseteq> fst ` set m \<union> fst ` set src"
proof (induction src arbitrary: m)
  case Nil
  then show ?case by simp
next
  case (Cons p src)
  from Cons.prems have d: "distinct (map fst (merge_entry m p))"
    by (rule distinct_keys_merge_entry)
  from Cons.IH [OF d] have dd: "distinct (map fst (foldl merge_entry (merge_entry m p) src))"
    and sub: "fst ` set (foldl merge_entry (merge_entry m p) src)
           \<subseteq> fst ` set (merge_entry m p) \<union> fst ` set src"
    by simp_all
  have "fst ` set (merge_entry m p) \<union> fst ` set src \<subseteq> fst ` set m \<union> fst ` set (p # src)"
    using keys_merge_entry [of m p] by auto
  with sub have "fst ` set (foldl merge_entry (merge_entry m p) src)
           \<subseteq> fst ` set m \<union> fst ` set (p # src)"
    by (rule subset_trans)
  with dd show ?case
    by (simp only: foldl_Cons simp_thms)
qed

lemma merge_scans_keys:
  "distinct (map fst (merge_scans nm wp))
   \<and> fst ` set (merge_scans nm wp) \<subseteq> fst ` set nm \<union> fst ` set wp"
proof -
  have a: "distinct (map fst (foldl merge_entry [] nm))"
    and b: "fst ` set (foldl merge_entry [] nm) \<subseteq> fst ` set nm"
    using foldl_merge_entry_keys [of "[]" nm] by simp_all
  from foldl_merge_entry_keys [OF a, of wp]
  have c: "distinct (map fst (foldl merge_entry (foldl merge_entry [] nm) wp))"
    and d: "fst ` set (foldl merge_entry (foldl merge_entry [] nm) wp)
           \<subseteq> fst ` set (foldl merge_entry [] nm) \<union> fst ` set wp"
    by simp_all
  from b have "fst ` set (foldl merge_entry [] nm) \<union> fst ` set wp \<subseteq> fst ` set nm \<union> fst ` set wp"
    by (rule Un_mono) (rule subset_refl)
  with d have "fst ` set (foldl merge_entry (foldl merge_entry [] nm) wp) \<subseteq> fst ` set nm \<union> fst ` set wp"
    by (rule subset_trans)
  with c show ?thesis
    by (simp add: merge_scans_def)
qed

lemma in_range_entries_current:
  "x \<in> set (in_range_entries sv cur m) \<Longrightarrow> current x = (ssid x = cur)"
  by (auto simp: in_range_entries_def in_range_entry_def Let_def split: if_splits)

lemma in_range_entries_ssids:
  "\<forall>k\<in>fst ` set m. strip k = k \<Longrightarrow>
   map ssid (in_range_entries sv cur m) = filter (\<lambda>k. k \<noteq> [] \<and> k \<in> sv) (map fst m)"
  by (induction m) (auto simp: in_range_entries_def in_range_entry_def Let_def)

lemma distinct_map_filter_eq:
  "distinct (map f xs) \<Longrightarrow> length (filter (\<lambda>x. f x = c) xs) \<le> 1"
proof (induction xs)
  case Nil
  then show ?case by simp
next
  case (Cons x xs)
  show ?case
  proof (cases "f x = c")
    case True
    with Cons.prems have "\<forall>y\<in>set xs. f y \<noteq> c"
      by (auto simp: image_iff)
    then have "filter (\<lambda>x. f x = c) xs = []"
      by (simp add: filter_empty_conv)
    with True show ?thesis by simp
  next
    case False
    with Cons show ?thesis by simp
  qed
qed

lemma at_most_one_current:
  assumes "\<forall>k\<in>fst ` set nm \<union> fst ` set wp. strip k = k"
  shows "length (filter current (in_range (refresh_task sw sn nm wp cur))) \<le> 1"
proof -
  let ?sv = "strip ` sw \<union> strip ` sn"
  let ?u = "in_range_entries ?sv cur (merge_scans nm wp)"
  let ?r = "in_range (refresh_task sw sn nm wp cur)"
  from assms merge_scans_keys [of nm wp] have "\<forall>k\<in>fst ` set (merge_scans nm wp). strip k = k"
    by blast
  then have "map ssid ?u = filter (\<lambda>k. k \<noteq> [] \<and> k \<in> ?sv) (map fst (merge_scans nm wp))"
    by (rule in_range_entries_ssids)
  with merge_scans_keys [of nm wp] have "distinct (map ssid ?u)"
    by simp
  then have "distinct (map ssid ?r)"
    by (simp add: in_range_refresh_task sort_in_range_def distinct_map)
  then have "length (filter (\<lambda>x. ssid x = cur) ?r) \<le> 1"
    by (rule distinct_map_filter_eq)
  moreover have "\<forall>x\<in>set ?r. current x = (ssid x = cur)"
    by (auto simp: in_range_refresh_task sort_in_range_def dest: in_range_entries_current)
  then have "filter current ?r = filter (\<lambda>x. ssid x = cur) ?r"
    by (auto intro: filter_cong)
  ultimately show ?thesis by simp
qed

text \<open>
  Claim C3. In \<^verbatim>\<open>in_range\<close> every entry marked current precedes every other entry, so a
  current entry, if there is one, is first; the entries not marked current are in
  non-increasing order of signal; entries with the same mark and signal keep the order in
  which they were inserted (no further tiebreak). The scan backends strip the SSIDs they
  use as keys; then at most one entry is current and all entries after it are in
  non-increasing order of signal.
\<close>

theorem in_range_current_first_then_signal:
  fixes saved_wpa saved_nm nm wp current_ssid
  defines "r \<equiv> in_range (refresh_task saved_wpa saved_nm nm wp current_ssid)"
  defines "u \<equiv> in_range_entries (strip ` saved_wpa \<union> strip ` saved_nm) current_ssid (merge_scans nm wp)"
  shows "r = filter current r @ filter (\<lambda>x. \<not> current x) r
    \<and> ((\<exists>x\<in>set r. current x) \<longrightarrow> r \<noteq> [] \<and> current (hd r))
    \<and> sorted_wrt (\<lambda>a b. signal b \<le> signal a) (filter (\<lambda>x. \<not> current x) r)
    \<and> (\<forall>c s. filter (\<lambda>x. current x = c \<and> signal x = s) r
             = filter (\<lambda>x. current x = c \<and> signal x = s) u)
    \<and> ((\<forall>k\<in>fst ` set nm \<union> fst ` set wp. strip k = k) \<longrightarrow>
         length (filter current r) \<le> 1
         \<and> sorted_wrt (\<lambda>a b. signal b \<le> signal a) (if r \<noteq> [] \<and> current (hd r) then tl r else r))"
proof -
  let ?key = "\<lambda>x::network_entry. (current x = False, - signal x)"
  have r: "r = sort_key ?key u"
    by (simp add: r_def u_def in_range_refresh_task sort_in_range_def)
  have srt: "sorted (map ?key r)"
    by (simp add: r)
  have split: "r = filter current r @ filter (\<lambda>x. \<not> current x) r"
    using srt by (rule sorted_current_first)
  have first: "(\<exists>x\<in>set r. current x) \<longrightarrow> r \<noteq> [] \<and> current (hd r)"
  proof
    assume "\<exists>x\<in>set r. current x"
    then have ne: "filter current r \<noteq> []"
      by (simp add: filter_empty_conv)
    then have "current (hd (filter current r))"
      by (metis (mono_tags) hd_in_set mem_Collect_eq set_filter)
    moreover from ne split have "hd r = hd (filter current r)"
      by (metis hd_append2)
    moreover from ne have "r \<noteq> []"
      by (cases r) simp_all
    ultimately show "r \<noteq> [] \<and> current (hd r)"
      by (simp only: simp_thms)
  qed
  have rest: "sorted_wrt (\<lambda>a b. signal b \<le> signal a) (filter (\<lambda>x. \<not> current x) r)"
    using sorted_signal_within_class [OF srt, of False] by simp
  have stable: "\<forall>c s. filter (\<lambda>x. current x = c \<and> signal x = s) r
             = filter (\<lambda>x. current x = c \<and> signal x = s) u"
  proof (intro allI)
    fix c s
    have "filter (\<lambda>x. ?key x = (c = False, - s)) r = filter (\<lambda>x. ?key x = (c = False, - s)) u"
      unfolding r by (rule sort_key_stable)
    moreover have "(\<lambda>x::network_entry. ?key x = (c = False, - s)) = (\<lambda>x. current x = c \<and> signal x = s)"
      by auto
    ultimately show "filter (\<lambda>x. current x = c \<and> signal x = s) r
             = filter (\<lambda>x. current x = c \<and> signal x = s) u"
      by simp
  qed
  have one: "(\<forall>k\<in>fst ` set nm \<union> fst ` set wp. strip k = k) \<longrightarrow>
         length (filter current r) \<le> 1
         \<and> sorted_wrt (\<lambda>a b. signal b \<le> signal a) (if r \<noteq> [] \<and> current (hd r) then tl r else r)"
  proof
    assume "\<forall>k\<in>fst ` set nm \<union> fst ` set wp. strip k = k"
    then have len: "length (filter current r) \<le> 1"
      unfolding r_def by (rule at_most_one_current)
    have "(if r \<noteq> [] \<and> current (hd r) then tl r else r) = filter (\<lambda>x. \<not> current x) r"
    proof (cases "r \<noteq> [] \<and> current (hd r)")
      case True
      then have "filter current r \<noteq> []"
        by (metis (mono_tags) filter_empty_conv hd_in_set)
      with len obtain c where c: "filter current r = [c]"
        by (cases "filter current r") auto
      with split have "r = c # filter (\<lambda>x. \<not> current x) r"
        by simp
      then have "tl r = filter (\<lambda>x. \<not> current x) r"
        by (metis list.sel(3))
      with True show ?thesis by simp
    next
      case False
      with first have "\<forall>x\<in>set r. \<not> current x"
        by blast
      then have "filter (\<lambda>x. \<not> current x) r = r"
        by (simp add: filter_id_conv)
      with False show ?thesis by auto
    qed
    with rest len show "length (filter current r) \<le> 1
         \<and> sorted_wrt (\<lambda>a b. signal b \<le> signal a) (if r \<noteq> [] \<and> current (hd r) then tl r else r)"
      by simp
  qed
  from split first rest stable one show ?thesis
    by blast
qed


theorem in_range_current_first_then_signal_witness:
  "in_range (refresh_task {''Home'', ''Lab''} {''Cafe''} example_nm example_wp ''Lab'')
       = [\<lparr>signal = 60, security = ''[ESS]'', ssid = ''Lab'', current = True\<rparr>,
          \<lparr>signal = 80, security = ''WPA2'', ssid = ''Home'', current = False\<rparr>,
          \<lparr>signal = 70, security = ''[ESS]'', ssid = ''Cafe'', current = False\<rparr>]
   \<and> sorted_wrt (\<lambda>a b. signal b \<le> signal a)
       (tl (in_range (refresh_task {''Home'', ''Lab''} {''Cafe''} example_nm example_wp ''Lab'')))"
proof -
  have keys: "\<forall>k\<in>fst ` set example_nm \<union> fst ` set example_wp. strip k = k"
    by (simp add: example_nm_def example_wp_def strip_def isspace_def)
  have val: "in_range (refresh_task {''Home'', ''Lab''} {''Cafe''} example_nm example_wp ''Lab'')
       = [\<lparr>signal = 60, security = ''[ESS]'', ssid = ''Lab'', current = True\<rparr>,
          \<lparr>signal = 80, security = ''WPA2'', ssid = ''Home'', current = False\<rparr>,
          \<lparr>signal = 70, security = ''[ESS]'', ssid = ''Cafe'', current = False\<rparr>]"
    by (simp add: refresh_task_def merge_scans_def merge_entry_def in_range_entries_def
        in_range_entry_def sort_in_range_def example_nm_def example_wp_def strip_def
        isspace_def Let_def)
  from in_range_current_first_then_signal
    [of "{''Home'', ''Lab''}" "{''Cafe''}" example_nm example_wp "''Lab''"] keys
  have "sorted_wrt (\<lambda>a b. signal b \<le> signal a)
       (if in_range (refresh_task {''Home'', ''Lab''} {''Cafe''} example_nm example_wp ''Lab'') \<noteq> []
           \<and> current (hd (in_range (refresh_task {''Home'', ''Lab''} {''Cafe''} example_nm example_wp ''Lab'')))
        then tl (in_range (refresh_task {''Home'', ''Lab''} {''Cafe''} example_nm example_wp ''Lab''))
        else in_range (refresh_task {''Home'', ''Lab''} {''Cafe''} example_nm example_wp ''Lab''))"
    by blast
  then have "sorted_wrt (\<lambda>a b. signal b \<le> signal a)
       (tl (in_range (refresh_task {''Home'', ''Lab''} {''Cafe''} example_nm example_wp ''Lab'')))"
    by (simp add: val)
  with val show ?thesis
    by (simp only: simp_thms)
qed

subsection \<open>Saved networks that are out of range\<close>

text \<open>
  Claim C4. \<^verbatim>\<open>out_of_range\<close> lists, sorted and without repetition, exactly the saved
  SSIDs that are neither the SSID of an \<^verbatim>\<open>in_range\<close> entry nor the current SSID (when
  that is not empty). So it never holds a non-empty current SSID and never an SSID of
  \<^verbatim>\<open>in_range\<close>. Python sets are finite.
\<close>

theorem out_of_range_is_saved_minus_in_range_minus_current:
  fixes saved_wpa saved_nm nm wp current_ssid
  assumes "finite saved_wpa" and "finite saved_nm"
  defines "r \<equiv> refresh_task saved_wpa saved_nm nm wp current_ssid"
  shows "set (out_of_range r)
           = (saved r - ssid ` set (in_range r))
               - (if current_ssid \<noteq> [] then {current_ssid} else {})
    \<and> sorted (out_of_range r) \<and> distinct (out_of_range r)
    \<and> (current_ssid \<noteq> [] \<longrightarrow> current_ssid \<notin> set (out_of_range r))
    \<and> (\<forall>x\<in>set (in_range r). ssid x \<notin> set (out_of_range r))"
proof -
  let ?A = "(saved r - ssid ` set (in_range r))
               - (if current_ssid \<noteq> [] then {current_ssid} else {})"
  have out: "out_of_range r = sorted_list_of_set ?A"
    by (simp add: r_def refresh_task_def Let_def)
  from assms(1,2) have "finite (saved r)"
    by (simp add: r_def refresh_task_def Let_def)
  then have fin: "finite ?A"
    by simp
  from fin have s: "set (out_of_range r) = ?A"
    unfolding out by (rule set_sorted_list_of_set)
  have sd: "sorted (out_of_range r)" "distinct (out_of_range r)"
    by (simp_all only: out sorted_sorted_list_of_set distinct_sorted_list_of_set)
  from s have "current_ssid \<noteq> [] \<longrightarrow> current_ssid \<notin> set (out_of_range r)"
    by simp
  moreover from s have "\<forall>x\<in>set (in_range r). ssid x \<notin> set (out_of_range r)"
    by simp
  ultimately show ?thesis
    using s sd by (simp only: simp_thms)
qed

theorem out_of_range_is_saved_minus_in_range_minus_current_witness:
  "finite {''Home'', ''Office''} \<and> finite ({} :: string set)
   \<and> out_of_range (refresh_task {''Home'', ''Office''} {}
        [(''Home'', \<lparr>signal = 80, security = []\<rparr>), (''Cafe'', \<lparr>signal = 60, security = []\<rparr>)]
        [] ''Home'') = [''Office'']
   \<and> ''Home'' \<notin> set (out_of_range (refresh_task {''Home'', ''Office''} {}
        [(''Home'', \<lparr>signal = 80, security = []\<rparr>), (''Cafe'', \<lparr>signal = 60, security = []\<rparr>)]
        [] ''Home''))"
proof -
  have f1: "finite {''Home'', ''Office''}" and f2: "finite ({} :: string set)"
    by simp_all
  have val: "out_of_range (refresh_task {''Home'', ''Office''} {}
        [(''Home'', \<lparr>signal = 80, security = []\<rparr>), (''Cafe'', \<lparr>signal = 60, security = []\<rparr>)]
        [] ''Home'') = [''Office'']"
    by (simp add: refresh_task_def merge_scans_def merge_entry_def in_range_entries_def
        in_range_entry_def sort_in_range_def strip_def isspace_def Let_def)
  from out_of_range_is_saved_minus_in_range_minus_current [OF f1 f2,
      of "[(''Home'', \<lparr>signal = 80, security = []\<rparr>), (''Cafe'', \<lparr>signal = 60, security = []\<rparr>)]"
         "[]" "''Home''"]
  have "''Home'' \<notin> set (out_of_range (refresh_task {''Home'', ''Office''} {}
        [(''Home'', \<lparr>signal = 80, security = []\<rparr>), (''Cafe'', \<lparr>signal = 60, security = []\<rparr>)]
        [] ''Home''))"
    by simp
  with f1 f2 val show ?thesis
    by (simp only: simp_thms)
qed

section \<open>Properties of the saved-network backends\<close>

lemma wpa_saved_row_stripped:
  "\<forall>s\<in>fst acc. strip s = s \<Longrightarrow> \<forall>s\<in>fst (wpa_saved_row acc line). strip s = s"
  by (auto simp: wpa_saved_row_def strip_strip split: list.splits)

lemma foldl_wpa_saved_row_stripped:
  "\<forall>s\<in>fst acc. strip s = s \<Longrightarrow> \<forall>s\<in>fst (foldl wpa_saved_row acc lines). strip s = s"
proof (induction lines arbitrary: acc)
  case Nil
  then show ?case by simp
next
  case (Cons line lines)
  from Cons.prems have "\<forall>s\<in>fst (wpa_saved_row acc line). strip s = s"
    by (rule wpa_saved_row_stripped)
  then show ?case
    by (simp add: Cons.IH)
qed

lemma wpa_cli_saved_stripped:
  assumes "get_saved_networks_wpa_cli h iface = Inr (saved_wpa, ssid_to_id)"
  shows "\<forall>s\<in>saved_wpa. strip s = s"
proof -
  have f: "\<forall>s\<in>fst (foldl wpa_saved_row ({}, []) lines). strip s = s" for lines
    by (rule foldl_wpa_saved_row_stripped) simp
  from assms obtain out where
    "(if out = [] then ({}, []) else foldl wpa_saved_row ({}, []) (drop 1 (splitlines out)))
       = (saved_wpa, ssid_to_id)"
    by (auto simp: get_saved_networks_wpa_cli_def split: sum.splits)
  moreover have "\<forall>s\<in>fst (if out = [] then ({}, [])
                     else foldl wpa_saved_row ({}, []) (drop 1 (splitlines out))). strip s = s"
    using f [of "drop 1 (splitlines out)"] by simp
  ultimately show ?thesis
    by (simp only: fst_conv)
qed

lemma nmcli_saved_ssids_stripped:
  "\<forall>s\<in>ssids. strip s = s \<Longrightarrow> \<forall>s\<in>nmcli_saved_ssids h ssids names. strip s = s"
proof (induction names arbitrary: ssids)
  case Nil
  then show ?case by simp
next
  case (Cons name names)
  show ?case
  proof (cases "run_cmd_on h (nmcli_ssid_cmd name)")
    case (Inl e)
    with Cons.prems show ?thesis by simp
  next
    case (Inr out)
    from Cons.prems have "\<forall>s\<in>(if out \<noteq> [] then insert (strip out) ssids else ssids). strip s = s"
      by (simp add: strip_strip)
    from Cons.IH [OF this] Inr show ?thesis by simp
  qed
qed

lemma nmcli_saved_stripped:
  "\<forall>s\<in>get_saved_networks_nmcli h. strip s = s"
proof -
  have "\<forall>s\<in>nmcli_saved_ssids h {} names. strip s = s" for names
    by (rule nmcli_saved_ssids_stripped) simp
  then show ?thesis
    by (simp add: get_saved_networks_nmcli_def split: proc_result.split option.split)
qed

lemma image_strip_stripped: "\<forall>s\<in>A. strip s = s \<Longrightarrow> strip ` A = A"
  by (auto simp: image_iff)

lemma saved_refresh_task: "saved (refresh_task A B nm wp cur) = strip ` A \<union> strip ` B"
  by (simp add: refresh_task_def Let_def)

text \<open>
  When the task of the refresh returns, its saved set is the union of what the two
  saved-network backends returned: the task strips every SSID again, and both backends
  return stripped SSIDs, on which stripping changes nothing.
\<close>

lemma refresh_saved_is_union:
  assumes "refresh_networks_task h iface client_ssid scan_nm scan_wp = Inr r"
  shows "\<exists>saved_wpa ssid_to_id.
           get_saved_networks_wpa_cli h iface = Inr (saved_wpa, ssid_to_id)
           \<and> saved r = saved_wpa \<union> get_saved_networks_nmcli h"
proof -
  from assms obtain saved_wpa ssid_to_id nm wp
    where w: "get_saved_networks_wpa_cli h iface = Inr (saved_wpa, ssid_to_id)"
      and r: "r = refresh_task saved_wpa (get_saved_networks_nmcli h) nm wp (strip client_ssid)"
    by (auto simp: refresh_networks_task_def Let_def split: sum.splits prod.splits if_splits)
  from r have "saved r = saved_wpa \<union> get_saved_networks_nmcli h"
    by (simp add: saved_refresh_task
        image_strip_stripped [OF wpa_cli_saved_stripped [OF w]]
        image_strip_stripped [OF nmcli_saved_stripped])
  with w show ?thesis
    by blast
qed

text \<open>
  The failures that the backends turn into an empty set: for \<^verbatim>\<open>wpa_cli\<close> a timeout, a
  return code other than 0 or empty output of a command that started; for \<^verbatim>\<open>nmcli\<close>
  the tool not being installed, and an exception, a timeout, a return code other than 0 or
  empty output of the command that lists the connections.
\<close>

lemma wpa_cli_handled_failure:
  assumes "raises h (list_networks_cmd iface) = None"
    and "proc (launched h) (list_networks_cmd iface) = Timed_out
         \<or> (\<exists>rc out. proc (launched h) (list_networks_cmd iface) = Completed rc out
               \<and> (rc \<noteq> 0 \<or> strip out = []))"
  shows "get_saved_networks_wpa_cli h iface = Inr ({}, [])"
proof -
  from assms(2) have "run_cmd (launched h) (list_networks_cmd iface) = []"
    by (auto simp: run_cmd_def)
  with assms(1) show ?thesis
    by (simp add: get_saved_networks_wpa_cli_def run_cmd_on_def)
qed

lemma nmcli_handled_failure:
  assumes "\<not> has_cmd (launched h) ''nmcli'' \<or> raises h nmcli_list_cmd \<noteq> None
         \<or> proc (launched h) nmcli_list_cmd = Timed_out
         \<or> (\<exists>rc out. proc (launched h) nmcli_list_cmd = Completed rc out \<and> (rc \<noteq> 0 \<or> out = []))"
  shows "get_saved_networks_nmcli h = {}"
  using assms by (auto simp: get_saved_networks_nmcli_def split: option.split)

text \<open>
  An exception that \<^verbatim>\<open>run_cmd\<close> does not catch leaves \<^verbatim>\<open>get_saved_networks_wpa_cli\<close>
  and the task, whatever \<^verbatim>\<open>nmcli\<close> would have answered.
\<close>

lemma wpa_cli_exception_ends_refresh:
  assumes "raises h (list_networks_cmd iface) = Some e"
  shows "get_saved_networks_wpa_cli h iface = Inl e
    \<and> refresh_networks_task h iface client_ssid scan_nm scan_wp = Inl e"
  using assms
  by (simp add: refresh_networks_task_def get_saved_networks_wpa_cli_def run_cmd_on_def)

lemma refresh_saved_example:
  "\<exists>r. refresh_networks_task example_host ''wlan0'' ''Home'' (Inr []) (Inr []) = Inr r
       \<and> saved r = {''Home'', ''Office'', ''Cafe''}"
proof -
  have w: "get_saved_networks_wpa_cli example_host ''wlan0''
      = Inr ({''Home'', ''Office''}, [(''Home'', ''0''), (''Office'', ''1'')])"
    by (simp add: get_saved_networks_wpa_cli_def run_cmd_on_def run_cmd_def example_host_def
        example_system_def list_networks_cmd_def wpa_saved_row_def setdefault_def
        string_eval_defs insert_commute)
  have n: "get_saved_networks_nmcli example_host = {''Cafe''}"
    by (simp add: get_saved_networks_nmcli_def run_cmd_on_def run_cmd_def has_cmd_def
        example_host_def example_system_def list_networks_cmd_def nmcli_list_cmd_def
        nmcli_ssid_cmd_def nmcli_wifi_names_def string_eval_defs)
  from w obtain r where r: "refresh_networks_task example_host ''wlan0'' ''Home'' (Inr []) (Inr []) = Inr r"
    by (simp add: refresh_networks_task_def Let_def split: if_splits)
  from refresh_saved_is_union [OF r] w n have "saved r = {''Home'', ''Office'', ''Cafe''}"
    by auto
  with r show ?thesis
    by blast
qed

lemma refresh_saved_handled_failures:
  "\<exists>r. refresh_networks_task failing_host ''wlan0'' ''Home'' (Inr []) (Inr []) = Inr r
       \<and> saved r = {}"
proof -
  have w: "get_saved_networks_wpa_cli failing_host ''wlan0'' = Inr ({}, [])"
    by (rule wpa_cli_handled_failure) (simp_all add: failing_host_def)
  have n: "get_saved_networks_nmcli failing_host = {}"
    by (rule nmcli_handled_failure) (simp add: failing_host_def)
  from w obtain r where r: "refresh_networks_task failing_host ''wlan0'' ''Home'' (Inr []) (Inr []) = Inr r"
    by (simp add: refresh_networks_task_def Let_def split: if_splits)
  from refresh_saved_is_union [OF r] w n have "saved r = {}"
    by auto
  with r show ?thesis
    by blast
qed

text \<open>
  Claim C2 against the code. On a host where \<^verbatim>\<open>sudo\<close> cannot be started the command of
  \<^verbatim>\<open>get_saved_networks_wpa_cli\<close> raises \<^verbatim>\<open>FileNotFoundError\<close>, which \<^verbatim>\<open>run_cmd\<close> does
  not catch. The failure of this backend is not turned into an empty set: the exception
  leaves the function and ends the task of the refresh, although the other backend,
  \<^verbatim>\<open>get_saved_networks_nmcli\<close>, returns the saved network it knows. The code itself sides
  with the claim: \<^verbatim>\<open>get_saved_networks_nmcli\<close> guards its commands with \<^verbatim>\<open>has_cmd\<close> and
  a handler for \<^verbatim>\<open>Exception\<close>, and \<^verbatim>\<open>disconnect_client_wifi\<close> runs the same
  \<^verbatim>\<open>list_networks\<close> command inside such a handler; \<^verbatim>\<open>get_saved_networks_wpa_cli\<close>
  has none.
\<close>

theorem wpa_cli_launch_failure_ends_refresh:
  "raises host_without_sudo (list_networks_cmd ''wlan0'') = Some (Other_exception ''FileNotFoundError'')
   \<and> get_saved_networks_wpa_cli host_without_sudo ''wlan0'' = Inl (Other_exception ''FileNotFoundError'')
   \<and> get_saved_networks_nmcli host_without_sudo = {''Cafe''}
   \<and> refresh_networks_task host_without_sudo ''wlan0'' client_ssid scan_nm scan_wp
       = Inl (Other_exception ''FileNotFoundError'')"
proof -
  have r: "raises host_without_sudo (list_networks_cmd ''wlan0'') = Some (Other_exception ''FileNotFoundError'')"
    by (simp add: host_without_sudo_def list_networks_cmd_def)
  have n: "get_saved_networks_nmcli host_without_sudo = {''Cafe''}"
    by (simp add: get_saved_networks_nmcli_def run_cmd_on_def run_cmd_def has_cmd_def
        host_without_sudo_def example_system_def list_networks_cmd_def nmcli_list_cmd_def
        nmcli_ssid_cmd_def nmcli_wifi_names_def string_eval_defs)
  from r n show ?thesis
    by (simp add: refresh_networks_task_def get_saved_networks_wpa_cli_def run_cmd_on_def)
qed

text \<open>
  What the claim asks for on this host is the reconciliation with an empty set for
  \<^verbatim>\<open>wpa_cli\<close> and the set of \<^verbatim>\<open>nmcli\<close>; the task does not return it.
\<close>

theorem wpa_cli_launch_failure_ends_refresh_witness:
  "refresh_networks_task host_without_sudo ''wlan0'' ''Home'' (Inr []) (Inr [])
     \<noteq> Inr (refresh_task {} (get_saved_networks_nmcli host_without_sudo) [] [] ''Home'')
   \<and> get_saved_networks_nmcli host_without_sudo \<noteq> {}"
  using wpa_cli_launch_failure_ends_refresh [of "''Home''" "Inr []" "Inr []"] by simp

section \<open>Properties of \<^verbatim>\<open>run_bg\<close>\<close>

lemma tick_all_done:
  "all_done clk \<Longrightarrow> fst (tick t clk) = [] \<and> all_done (snd (tick t clk))"
  by (auto simp: all_done_def tick_def Let_def filter_empty_conv)

lemma run_frame_all_done:
  "all_done (fst cm) \<Longrightarrow> all_done (fst (run_frame t cm)) \<and> snd (run_frame t cm) = snd cm"
  using tick_all_done [of "fst cm" t]
  by (auto simp: run_frame_def split: prod.split)

lemma run_frames_all_done:
  "all_done (fst cm) \<Longrightarrow> snd (run_frames ts cm) = snd cm"
proof (induction ts arbitrary: cm)
  case Nil
  then show ?case by (simp add: run_frames_def)
next
  case (Cons t ts)
  from run_frame_all_done [OF Cons.prems, of t]
  have a: "all_done (fst (run_frame t cm))" and b: "snd (run_frame t cm) = snd cm"
    by simp_all
  from Cons.IH [OF a] b show ?case
    by (simp add: run_frames_def)
qed

text \<open>
  The first frame after a callback was scheduled with timeout 0, on a clock with nothing
  else to run: the callback runs, once, and nothing is left to run.
\<close>

lemma scheduled_first_frame:
  assumes "0 \<le> clock_resolution clk" and "all_done clk"
  shows "all_done (fst (run_frame t (snd (schedule_once callback 0 clk), m)))
    \<and> snd (run_frame t (snd (schedule_once callback 0 clk), m)) = callback m"
proof -
  let ?old = "clock_events clk"
  let ?t = "max t (clock_time clk)"
  let ?r = "clock_resolution clk"
  from assms(2) have none: "filter (\<lambda>(due, callback, pending). pending \<and> due - ?r \<le> ?t) ?old = []"
    by (auto simp: all_done_def filter_empty_conv)
  from assms(2) have rest: "\<forall>ev\<in>set (map (\<lambda>(due, callback, pending). (due, callback, pending \<and> \<not> due - ?r \<le> ?t)) ?old).
      \<not> snd (snd ev)"
    by (auto simp: all_done_def)
  from assms(1) have now: "clock_time clk - ?r \<le> ?t"
    by simp
  show ?thesis
    using none rest now
    by (simp add: run_frame_def schedule_once_def tick_def Let_def all_done_def)
qed

lemma scheduled_frames:
  assumes "0 \<le> clock_resolution clk" and "all_done clk"
  shows "snd (run_frames (t # ts) (snd (schedule_once callback 0 clk), m)) = callback m"
proof -
  let ?cm = "run_frame t (snd (schedule_once callback 0 clk), m)"
  from scheduled_first_frame [OF assms, of t callback m]
  have a: "all_done (fst ?cm)" and b: "snd ?cm = callback m"
    by simp_all
  from run_frames_all_done [OF a, of ts] b show ?thesis
    by (simp add: run_frames_def)
qed

text \<open>
  A sequence of frames leaves the state that the callbacks it runs produce, one after the
  other.
\<close>

lemma run_frames_fired:
  "snd (run_frames ts (clk, m)) = foldl (\<lambda>m callback. callback m) m (frames_fired ts clk)"
proof (induction ts arbitrary: clk m)
  case Nil
  show ?case by (simp add: run_frames_def)
next
  case (Cons t ts)
  have "run_frame t (clk, m) = (snd (tick t clk), foldl (\<lambda>m callback. callback m) m (fst (tick t clk)))"
    by (simp add: run_frame_def split: prod.split)
  moreover have "run_frames (t # ts) (clk, m) = run_frames ts (run_frame t (clk, m))"
    by (simp add: run_frames_def)
  ultimately show ?case
    by (simp add: Cons.IH)
qed

text \<open>An event that has run changes nothing in the frames that follow.\<close>

lemma tick_done_event:
  "tick t (clk\<lparr>clock_events := clock_events clk @ [(due, callback, False)]\<rparr>) =
     (fst (tick t clk),
      (snd (tick t clk))\<lparr>clock_events := clock_events (snd (tick t clk)) @ [(due, callback, False)]\<rparr>)"
  by (simp add: tick_def Let_def)

lemma frames_fired_done_event:
  "frames_fired ts (clk\<lparr>clock_events := clock_events clk @ [(due, callback, False)]\<rparr>)
     = frames_fired ts clk"
proof (induction ts arbitrary: clk)
  case Nil
  show ?case by simp
next
  case (Cons t ts)
  show ?case
    by (simp add: tick_done_event Cons.IH)
qed

text \<open>
  An event scheduled with timeout 0 runs in the first frame, after the events scheduled
  before it, and in no later frame; the other events run as they would without it.
\<close>

lemma tick_scheduled_event:
  assumes "0 \<le> clock_resolution clk"
  shows "tick t (snd (schedule_once callback 0 clk)) =
     (fst (tick t clk) @ [callback],
      (snd (tick t clk))\<lparr>clock_events := clock_events (snd (tick t clk)) @ [(clock_time clk, callback, False)]\<rparr>)"
proof -
  from assms have "clock_time clk - clock_resolution clk \<le> max t (clock_time clk)"
    by simp
  then show ?thesis
    by (simp add: schedule_once_def tick_def Let_def)
qed

lemma frames_fired_scheduled_event:
  assumes "0 \<le> clock_resolution clk"
  shows "frames_fired (t # ts) (snd (schedule_once callback 0 clk))
     = fst (tick t clk) @ [callback] @ frames_fired ts (snd (tick t clk))"
  by (simp add: tick_scheduled_event [OF assms] frames_fired_done_event)

text \<open>
  Claim C7, as amended. Take a clock of resolution at least 0. When the body returns a
  value or raises an instance of \<^verbatim>\<open>Exception\<close>, the worker schedules exactly one clock
  event, with timeout 0, and ends without an exception. The frames that follow run that
  event exactly once, in the first of them, after the events that were scheduled before
  it; what else they run is what they would run without the job. The event calls the
  completion, if there is one, with the body's value and no failure when the body returned,
  and with no result and the exception when it raised; so on a clock with nothing else to
  run, the state of the user-interface thread after one or more frames is what one call
  of the completion makes of it, and it is unchanged without a completion. When the body
  raises an exception outside \<^verbatim>\<open>Exception\<close> or never ends, the worker schedules nothing,
  so the frames run what they would run without the job and the completion is not called;
  in the first case the exception leaves the worker.
\<close>

theorem run_bg_completion_exactly_once:
  assumes "0 \<le> clock_resolution clk"
  shows "run_bg_worker (Returns v) on_done clk =
       (Worker_returned,
        clk\<lparr>clock_events := clock_events clk @ [(clock_time clk, after on_done (Some v) None, True)]\<rparr>)
   \<and> run_bg_worker (Raises e) on_done clk =
       (Worker_returned,
        clk\<lparr>clock_events := clock_events clk @ [(clock_time clk, after on_done None (Some e), True)]\<rparr>)
   \<and> run_bg_worker (Raises_base b) on_done clk = (Worker_raised b, clk)
   \<and> run_bg_worker Never_returns on_done clk = (Worker_running, clk)
   \<and> frames_fired (t # ts) (snd (run_bg_worker (Returns v) on_done clk))
        = fst (tick t clk) @ [after on_done (Some v) None] @ frames_fired ts (snd (tick t clk))
   \<and> frames_fired (t # ts) (snd (run_bg_worker (Raises e) on_done clk))
        = fst (tick t clk) @ [after on_done None (Some e)] @ frames_fired ts (snd (tick t clk))
   \<and> after (Some f) (Some v) None m = f (Some v) None m
   \<and> after (Some f) None (Some e) m = f None (Some e) m
   \<and> after None result err m = m
   \<and> (all_done clk \<longrightarrow>
        snd (run_frames (t # ts) (snd (run_bg_worker (Returns v) (Some f) clk), m)) = f (Some v) None m
      \<and> snd (run_frames (t # ts) (snd (run_bg_worker (Raises e) (Some f) clk), m)) = f None (Some e) m
      \<and> snd (run_frames ts (snd (run_bg_worker fn None clk), m)) = m
      \<and> snd (run_frames ts (snd (run_bg_worker (Raises_base b) on_done clk), m)) = m
      \<and> snd (run_frames ts (snd (run_bg_worker Never_returns on_done clk), m)) = m)"
proof -
  have w1: "run_bg_worker (Returns v) on_done clk =
       (Worker_returned,
        clk\<lparr>clock_events := clock_events clk @ [(clock_time clk, after on_done (Some v) None, True)]\<rparr>)"
    and w2: "run_bg_worker (Raises e) on_done clk =
       (Worker_returned,
        clk\<lparr>clock_events := clock_events clk @ [(clock_time clk, after on_done None (Some e), True)]\<rparr>)"
    and w3: "run_bg_worker (Raises_base b) on_done clk = (Worker_raised b, clk)"
    and w4: "run_bg_worker Never_returns on_done clk = (Worker_running, clk)"
    by (simp_all add: run_bg_worker_def schedule_once_def)
  have f1: "frames_fired (t # ts) (snd (run_bg_worker (Returns v) on_done clk))
        = fst (tick t clk) @ [after on_done (Some v) None] @ frames_fired ts (snd (tick t clk))"
    and f2: "frames_fired (t # ts) (snd (run_bg_worker (Raises e) on_done clk))
        = fst (tick t clk) @ [after on_done None (Some e)] @ frames_fired ts (snd (tick t clk))"
    using frames_fired_scheduled_event [OF assms]
    by (simp_all add: run_bg_worker_def)
  have a1: "after (Some f) (Some v) None m = f (Some v) None m"
    and a2: "after (Some f) None (Some e) m = f None (Some e) m"
    and a3: "after None result err m = m"
    by (simp_all add: after_def)
  have idle: "all_done clk \<longrightarrow>
        snd (run_frames (t # ts) (snd (run_bg_worker (Returns v) (Some f) clk), m)) = f (Some v) None m
      \<and> snd (run_frames (t # ts) (snd (run_bg_worker (Raises e) (Some f) clk), m)) = f None (Some e) m
      \<and> snd (run_frames ts (snd (run_bg_worker fn None clk), m)) = m
      \<and> snd (run_frames ts (snd (run_bg_worker (Raises_base b) on_done clk), m)) = m
      \<and> snd (run_frames ts (snd (run_bg_worker Never_returns on_done clk), m)) = m"
  proof
    assume d: "all_done clk"
    have s1: "snd (run_frames (t # ts) (snd (run_bg_worker (Returns v) (Some f) clk), m)) = f (Some v) None m"
      and s2: "snd (run_frames (t # ts) (snd (run_bg_worker (Raises e) (Some f) clk), m)) = f None (Some e) m"
      by (simp_all add: run_bg_worker_def scheduled_frames [OF assms d] after_def)
    have s4: "snd (run_frames ts (snd (run_bg_worker (Raises_base b) on_done clk), m)) = m"
      and s5: "snd (run_frames ts (snd (run_bg_worker Never_returns on_done clk), m)) = m"
      using run_frames_all_done [of "(clk, m)" ts] d
      by (simp_all add: run_bg_worker_def)
    have s3: "snd (run_frames ts (snd (run_bg_worker fn None clk), m)) = m"
    proof (cases ts)
      case Nil
      then show ?thesis by (simp add: run_frames_def)
    next
      case (Cons t' ts')
      show ?thesis
      proof (cases fn)
        case (Returns v')
        with Cons show ?thesis
          by (simp add: run_bg_worker_def scheduled_frames [OF assms d] after_def)
      next
        case (Raises e')
        with Cons show ?thesis
          by (simp add: run_bg_worker_def scheduled_frames [OF assms d] after_def)
      next
        case (Raises_base b')
        with run_frames_all_done [of "(clk, m)" ts] d show ?thesis
          by (simp add: run_bg_worker_def)
      next
        case Never_returns
        with run_frames_all_done [of "(clk, m)" ts] d show ?thesis
          by (simp add: run_bg_worker_def)
      qed
    qed
    from s1 s2 s3 s4 s5
    show "snd (run_frames (t # ts) (snd (run_bg_worker (Returns v) (Some f) clk), m)) = f (Some v) None m
      \<and> snd (run_frames (t # ts) (snd (run_bg_worker (Raises e) (Some f) clk), m)) = f None (Some e) m
      \<and> snd (run_frames ts (snd (run_bg_worker fn None clk), m)) = m
      \<and> snd (run_frames ts (snd (run_bg_worker (Raises_base b) on_done clk), m)) = m
      \<and> snd (run_frames ts (snd (run_bg_worker Never_returns on_done clk), m)) = m"
      by (simp only: simp_thms)
  qed
  from w1 w2 w3 w4 f1 f2 a1 a2 a3 idle show ?thesis
    by (simp only: simp_thms)
qed

text \<open>
  The recording completion on a clock with nothing else to run: after three frames the
  record holds one call, with the exception of the body or with its value.
\<close>

theorem run_bg_completion_exactly_once_witness:
  "0 \<le> clock_resolution (clock_init default_resolution 0 :: ((bool option \<times> exn option) list \<Rightarrow> (bool option \<times> exn option) list) clock)
   \<and> all_done (clock_init default_resolution 0 :: ((bool option \<times> exn option) list \<Rightarrow> (bool option \<times> exn option) list) clock)
   \<and> snd (run_frames [0.1, 0.2, 0.3]
      (snd (run_bg_worker (Raises (RuntimeError ''Failed to connect'') :: bool body) (Some record_call)
              (clock_init default_resolution 0)), []))
    = [(None, Some (RuntimeError ''Failed to connect''))]
   \<and> snd (run_frames [0.1, 0.2, 0.3]
      (snd (run_bg_worker (Returns True) (Some record_call) (clock_init default_resolution 0)), []))
    = [(Some True, None)]"
proof -
  let ?clk = "clock_init default_resolution 0 :: ((bool option \<times> exn option) list \<Rightarrow> (bool option \<times> exn option) list) clock"
  have h: "0 \<le> clock_resolution ?clk" and d: "all_done ?clk"
    by (simp_all add: clock_init_def default_resolution_def all_done_def)
  from run_bg_completion_exactly_once [OF h, where t = "0.1" and ts = "[0.2, 0.3]"
      and e = "RuntimeError ''Failed to connect''" and v = True
      and fn = "Returns True" and on_done = "Some record_call"
      and f = record_call and m = "[]" and b = SystemExit and result = None and err = None] d
  have "snd (run_frames [0.1, 0.2, 0.3]
      (snd (run_bg_worker (Raises (RuntimeError ''Failed to connect'') :: bool body) (Some record_call) ?clk), []))
      = record_call None (Some (RuntimeError ''Failed to connect'')) []"
    and "snd (run_frames [0.1, 0.2, 0.3]
      (snd (run_bg_worker (Returns True) (Some record_call) ?clk), []))
      = record_call (Some True) None []"
    by blast+
  with h d show ?thesis
    by (simp add: record_call_def)
qed

text \<open>
  Claim C7 as stated fails. A body that raises \<^verbatim>\<open>SystemExit\<close> (it calls
  \<^verbatim>\<open>sys.exit()\<close>, say) is a job whose exception is not captured: it leaves the worker,
  nothing is scheduled, and the completion is not run in any of the frames that follow.
  The completion of a body that never ends is not run either.
\<close>

theorem run_bg_system_exit_counterexample:
  "fst (run_bg_worker (Raises_base SystemExit :: bool body) (Some record_call)
          (clock_init default_resolution 0)) = Worker_raised SystemExit
   \<and> clock_events (snd (run_bg_worker (Raises_base SystemExit :: bool body) (Some record_call)
          (clock_init default_resolution 0))) = []
   \<and> snd (run_frames [0.1, 0.2, 0.3]
        (snd (run_bg_worker (Raises_base SystemExit :: bool body) (Some record_call)
                (clock_init default_resolution 0)), [])) = []
   \<and> snd (run_frames [0.1, 0.2, 0.3]
        (snd (run_bg_worker (Never_returns :: bool body) (Some record_call)
                (clock_init default_resolution 0)), [])) = []"
  by (simp add: run_bg_worker_def clock_init_def run_frames_def run_frame_def tick_def Let_def)

section \<open>Properties of the connection attempt\<close>

lemma find_network_id_None:
  "(find_network_id wanted lines = None) = (\<forall>l\<in>set lines. \<not> row_has_ssid wanted l)"
  by (induction lines) (auto simp: row_has_ssid_def split: list.splits)

lemma find_network_id_Some:
  "(find_network_id wanted lines = Some nid) =
     (\<exists>pre line post. lines = pre @ line # post \<and> (\<forall>l\<in>set pre. \<not> row_has_ssid wanted l)
        \<and> row_has_ssid wanted line \<and> row_network_id line = nid)"
proof (induction lines)
  case Nil
  then show ?case by simp
next
  case (Cons l lines)
  show ?case
  proof (cases "row_has_ssid wanted l")
    case True
    then have "find_network_id wanted (l # lines) = Some (row_network_id l)"
      by (auto simp: row_has_ssid_def row_network_id_def split: list.splits)
    moreover have "(\<exists>pre line post. l # lines = pre @ line # post
        \<and> (\<forall>l\<in>set pre. \<not> row_has_ssid wanted l)
        \<and> row_has_ssid wanted line \<and> row_network_id line = nid) = (row_network_id l = nid)"
    proof
      assume "\<exists>pre line post. l # lines = pre @ line # post
        \<and> (\<forall>l\<in>set pre. \<not> row_has_ssid wanted l)
        \<and> row_has_ssid wanted line \<and> row_network_id line = nid"
      then obtain pre line post where eq: "l # lines = pre @ line # post"
        and pre: "\<forall>l\<in>set pre. \<not> row_has_ssid wanted l"
        and nid: "row_network_id line = nid"
        by blast
      from eq pre True have "pre = []"
        by (cases pre) auto
      with eq nid show "row_network_id l = nid"
        by simp
    next
      assume "row_network_id l = nid"
      with True have "l # lines = [] @ l # lines \<and> (\<forall>l\<in>set []. \<not> row_has_ssid wanted l)
        \<and> row_has_ssid wanted l \<and> row_network_id l = nid"
        by simp
      then show "\<exists>pre line post. l # lines = pre @ line # post
        \<and> (\<forall>l\<in>set pre. \<not> row_has_ssid wanted l)
        \<and> row_has_ssid wanted line \<and> row_network_id line = nid"
        by blast
    qed
    ultimately show ?thesis
      by auto
  next
    case False
    then have f: "find_network_id wanted (l # lines) = find_network_id wanted lines"
      by (auto simp: row_has_ssid_def split: list.splits)
    have "(\<exists>pre line post. l # lines = pre @ line # post
        \<and> (\<forall>l\<in>set pre. \<not> row_has_ssid wanted l)
        \<and> row_has_ssid wanted line \<and> row_network_id line = nid)
      = (\<exists>pre line post. lines = pre @ line # post
        \<and> (\<forall>l\<in>set pre. \<not> row_has_ssid wanted l)
        \<and> row_has_ssid wanted line \<and> row_network_id line = nid)"
    proof
      assume "\<exists>pre line post. l # lines = pre @ line # post
        \<and> (\<forall>l\<in>set pre. \<not> row_has_ssid wanted l)
        \<and> row_has_ssid wanted line \<and> row_network_id line = nid"
      then obtain pre line post where eq: "l # lines = pre @ line # post"
        and pre: "\<forall>l\<in>set pre. \<not> row_has_ssid wanted l"
        and row: "row_has_ssid wanted line" and nid: "row_network_id line = nid"
        by blast
      from eq row False obtain pre' where "pre = l # pre'"
        by (cases pre) auto
      with eq pre row nid have "lines = pre' @ line # post \<and> (\<forall>l\<in>set pre'. \<not> row_has_ssid wanted l)
        \<and> row_has_ssid wanted line \<and> row_network_id line = nid"
        by simp
      then show "\<exists>pre line post. lines = pre @ line # post
        \<and> (\<forall>l\<in>set pre. \<not> row_has_ssid wanted l)
        \<and> row_has_ssid wanted line \<and> row_network_id line = nid"
        by blast
    next
      assume "\<exists>pre line post. lines = pre @ line # post
        \<and> (\<forall>l\<in>set pre. \<not> row_has_ssid wanted l)
        \<and> row_has_ssid wanted line \<and> row_network_id line = nid"
      then obtain pre line post where eq: "lines = pre @ line # post"
        and pre: "\<forall>l\<in>set pre. \<not> row_has_ssid wanted l"
        and row: "row_has_ssid wanted line" and nid: "row_network_id line = nid"
        by blast
      with False have "l # lines = (l # pre) @ line # post \<and> (\<forall>l\<in>set (l # pre). \<not> row_has_ssid wanted l)
        \<and> row_has_ssid wanted line \<and> row_network_id line = nid"
        by simp
      then show "\<exists>pre line post. l # lines = pre @ line # post
        \<and> (\<forall>l\<in>set pre. \<not> row_has_ssid wanted l)
        \<and> row_has_ssid wanted line \<and> row_network_id line = nid"
        by blast
    qed
    with f Cons.IH show ?thesis
      by simp
  qed
qed

lemma connect_wpa_cli_fst:
  "fst (connect_wpa_cli sys iface wanted) =
     (run_cmd sys (list_networks_cmd iface) \<noteq> []
      \<and> (\<exists>nid. find_network_id wanted (drop 1 (splitlines (run_cmd sys (list_networks_cmd iface)))) = Some nid
           \<and> nid \<noteq> []))"
  by (auto simp: connect_wpa_cli_def Let_def split: option.splits)

lemma connect_wpa_cli_depends_on_list_only:
  "proc sys' (list_networks_cmd iface) = proc sys (list_networks_cmd iface) \<Longrightarrow>
   connect_wpa_cli sys' iface wanted = connect_wpa_cli sys iface wanted"
proof -
  assume "proc sys' (list_networks_cmd iface) = proc sys (list_networks_cmd iface)"
  then have "run_cmd sys' (list_networks_cmd iface) = run_cmd sys (list_networks_cmd iface)"
    by (simp add: run_cmd_def)
  then show ?thesis
    by (simp add: connect_wpa_cli_def Let_def split: option.split)
qed

text \<open>
  Claim C10, as amended. \<^verbatim>\<open>connect_wpa_cli\<close> returns \<^verbatim>\<open>True\<close> exactly when the output
  of \<^verbatim>\<open>list_networks\<close> is not empty and, after its header line, the first row whose SSID
  field equals the wanted SSID has a network id field that is not empty. Its result, and
  the commands it runs, depend on the outcome of \<^verbatim>\<open>list_networks\<close> only: what
  \<^verbatim>\<open>select_network\<close>, \<^verbatim>\<open>enable_network\<close> and \<^verbatim>\<open>save_config\<close> do is ignored.
\<close>

theorem connect_wpa_cli_true_iff_first_row_has_id:
  "fst (connect_wpa_cli sys iface wanted) =
     (run_cmd sys (list_networks_cmd iface) \<noteq> []
      \<and> (\<exists>pre line post.
            drop 1 (splitlines (run_cmd sys (list_networks_cmd iface))) = pre @ line # post
            \<and> (\<forall>l\<in>set pre. \<not> row_has_ssid wanted l)
            \<and> row_has_ssid wanted line \<and> row_network_id line \<noteq> []))
   \<and> (proc sys' (list_networks_cmd iface) = proc sys (list_networks_cmd iface)
        \<longrightarrow> connect_wpa_cli sys' iface wanted = connect_wpa_cli sys iface wanted)"
proof -
  have "(\<exists>nid. find_network_id wanted (drop 1 (splitlines (run_cmd sys (list_networks_cmd iface)))) = Some nid
           \<and> nid \<noteq> [])
     = (\<exists>pre line post.
            drop 1 (splitlines (run_cmd sys (list_networks_cmd iface))) = pre @ line # post
            \<and> (\<forall>l\<in>set pre. \<not> row_has_ssid wanted l)
            \<and> row_has_ssid wanted line \<and> row_network_id line \<noteq> [])"
    unfolding find_network_id_Some by blast
  then show ?thesis
    using connect_wpa_cli_depends_on_list_only [of sys' iface sys wanted]
    by (simp only: connect_wpa_cli_fst simp_thms) blast
qed


theorem connect_wpa_cli_true_iff_first_row_has_id_witness:
  "proc office_known_all_succeed (list_networks_cmd ''wlan0'')
     = proc office_known_rest_fails (list_networks_cmd ''wlan0'')
   \<and> proc office_known_rest_fails (select_network_cmd ''wlan0'' ''3'') = Timed_out
   \<and> connect_wpa_cli office_known_all_succeed ''wlan0'' ''Office''
       = connect_wpa_cli office_known_rest_fails ''wlan0'' ''Office''
   \<and> fst (connect_wpa_cli office_known_rest_fails ''wlan0'' ''Office'')"
proof -
  let ?line = "''3'' @ [TAB] @ ''Office'' @ [TAB] @ ''any'' @ [TAB] @ ''[DISABLED]''"
  have p: "proc office_known_all_succeed (list_networks_cmd ''wlan0'')
     = proc office_known_rest_fails (list_networks_cmd ''wlan0'')"
    by (simp add: office_known_all_succeed_def office_known_rest_fails_def)
  have q: "proc office_known_rest_fails (select_network_cmd ''wlan0'' ''3'') = Timed_out"
    by (simp add: office_known_rest_fails_def list_networks_cmd_def select_network_cmd_def)
  have out: "run_cmd office_known_rest_fails (list_networks_cmd ''wlan0'') \<noteq> []"
    by (simp add: connect_wpa_cli_def select_network_cmd_def enable_network_cmd_def
        save_config_cmd_def row_has_ssid_def row_network_id_def office_known_rest_fails_def
        run_cmd_def list_networks_cmd_def string_eval_defs)
  have rows: "drop 1 (splitlines (run_cmd office_known_rest_fails (list_networks_cmd ''wlan0'')))
      = [] @ ?line # []"
    by (simp add: connect_wpa_cli_def select_network_cmd_def enable_network_cmd_def
        save_config_cmd_def row_has_ssid_def row_network_id_def office_known_rest_fails_def
        run_cmd_def list_networks_cmd_def string_eval_defs)
  have row: "row_has_ssid ''Office'' ?line" "row_network_id ?line \<noteq> []"
    by (simp_all add: connect_wpa_cli_def select_network_cmd_def enable_network_cmd_def
        save_config_cmd_def row_has_ssid_def row_network_id_def office_known_rest_fails_def
        run_cmd_def list_networks_cmd_def string_eval_defs)
  from rows row have "\<exists>pre line post.
      drop 1 (splitlines (run_cmd office_known_rest_fails (list_networks_cmd ''wlan0''))) = pre @ line # post
      \<and> (\<forall>l\<in>set pre. \<not> row_has_ssid ''Office'' l)
      \<and> row_has_ssid ''Office'' line \<and> row_network_id line \<noteq> []"
    by (intro exI [of _ "[]"] exI [of _ ?line]) simp
  with out p
    connect_wpa_cli_true_iff_first_row_has_id
      [of office_known_rest_fails "''wlan0''" "''Office''" office_known_all_succeed]
  have "fst (connect_wpa_cli office_known_rest_fails ''wlan0'' ''Office'')"
    and "connect_wpa_cli office_known_all_succeed ''wlan0'' ''Office''
       = connect_wpa_cli office_known_rest_fails ''wlan0'' ''Office''"
    by blast+
  with p q show ?thesis
    by (simp only: simp_thms)
qed

text \<open>
  Claim C10 as stated fails: here the output is not empty and holds a row whose SSID field
  is the wanted SSID, and the result is \<^verbatim>\<open>False\<close>, because the id field of that row is
  empty.
\<close>

theorem connect_wpa_cli_row_with_empty_id_counterexample:
  "run_cmd office_row_without_id (list_networks_cmd ''wlan0'') \<noteq> []
   \<and> ([TAB] @ ''Office'' @ [TAB] @ ''any'' @ [TAB] @ ''[DISABLED]'')
       \<in> set (drop 1 (splitlines (run_cmd office_row_without_id (list_networks_cmd ''wlan0''))))
   \<and> row_has_ssid ''Office'' ([TAB] @ ''Office'' @ [TAB] @ ''any'' @ [TAB] @ ''[DISABLED]'')
   \<and> \<not> fst (connect_wpa_cli office_row_without_id ''wlan0'' ''Office'')"
  by (simp add: connect_wpa_cli_def select_network_cmd_def enable_network_cmd_def
      save_config_cmd_def row_has_ssid_def office_row_without_id_def run_cmd_def
      list_networks_cmd_def string_eval_defs)

text \<open>The result of \<^verbatim>\<open>connect_wpa_cli\<close> and the commands it runs, in full.\<close>

lemma connect_wpa_cli_result:
  "connect_wpa_cli sys iface wanted =
     (case find_network_id wanted (drop 1 (splitlines (run_cmd sys (list_networks_cmd iface)))) of
        None \<Rightarrow> (False, [list_networks_cmd iface])
      | Some nid \<Rightarrow>
          if run_cmd sys (list_networks_cmd iface) \<noteq> [] \<and> nid \<noteq> []
          then (True, [list_networks_cmd iface, select_network_cmd iface nid,
                       enable_network_cmd iface nid, save_config_cmd iface])
          else (False, [list_networks_cmd iface]))"
  by (simp add: connect_wpa_cli_def Let_def split: option.split)

lemma nmcli_connect_cmd_not_wpa_cli:
  "nmcli_connect_cmd iface wanted \<noteq> list_networks_cmd iface
   \<and> nmcli_connect_cmd iface wanted \<noteq> select_network_cmd iface nid
   \<and> nmcli_connect_cmd iface wanted \<noteq> enable_network_cmd iface nid
   \<and> nmcli_connect_cmd iface wanted \<noteq> save_config_cmd iface"
  by (simp add: nmcli_connect_cmd_def list_networks_cmd_def select_network_cmd_def
      enable_network_cmd_def save_config_cmd_def)

lemma connect_nmcli_result:
  "connect_nmcli sys iface wanted =
     (case proc sys (nmcli_connect_cmd iface wanted) of
        Completed returncode stdout \<Rightarrow> Inr (returncode = 0)
      | Timed_out \<Rightarrow> Inl TimeoutExpired)"
  by (simp add: connect_nmcli_def split: proc_result.split)

text \<open>
  The completion of the task runs in the first frame, once, with the task's value or its
  exception.
\<close>

lemma connect_to_idle:
  "\<not> connecting ui \<Longrightarrow>
   connect_to sys iface wanted t ui =
     (connect_done wanted
        (case fst (connect_task sys iface wanted) of Inl e \<Rightarrow> None | Inr v \<Rightarrow> Some v)
        (case fst (connect_task sys iface wanted) of Inl e \<Rightarrow> Some e | Inr v \<Rightarrow> None)
        (ui\<lparr>connecting := True, effects := effects ui @ [Busy_on]\<rparr>),
      snd (connect_task sys iface wanted), Some (fst (connect_task sys iface wanted)))"
proof -
  assume idle: "\<not> connecting ui"
  let ?clk = "clock_init default_resolution 0 :: (wifi_ui \<Rightarrow> wifi_ui) clock"
  have h: "0 \<le> clock_resolution ?clk" "all_done ?clk"
    by (simp_all add: clock_init_def default_resolution_def all_done_def)
  have "snd (run_frame t (snd (run_bg_worker (task_body outcome) (Some f) ?clk), m)) =
      f (case outcome of Inl e \<Rightarrow> None | Inr v \<Rightarrow> Some v)
        (case outcome of Inl e \<Rightarrow> Some e | Inr v \<Rightarrow> None) m"
    for outcome :: "exn + bool" and f m
    using scheduled_first_frame [OF h, of t _ m]
    by (cases outcome) (simp_all add: task_body_def run_bg_worker_def after_def)
  with idle show ?thesis
    by (simp add: connect_to_def Let_def split: prod.split)
qed

text \<open>
  Claim C6. A call of \<^verbatim>\<open>_connect_to\<close> while another attempt is in flight changes nothing.
  Otherwise \<^verbatim>\<open>wpa_cli\<close> comes first: it is asked for the saved networks, and it succeeds
  exactly when the first row of the wanted SSID has a network id; then the task runs
  \<^verbatim>\<open>select_network\<close>, \<^verbatim>\<open>enable_network\<close> and \<^verbatim>\<open>save_config\<close> with that id, in this
  order, and nothing else. When \<^verbatim>\<open>wpa_cli\<close> fails, the only further command is the
  connect command of \<^verbatim>\<open>nmcli\<close>, run exactly when \<^verbatim>\<open>nmcli\<close> is installed; \<^verbatim>\<open>nmcli\<close>
  succeeds exactly when that command ends with return code 0. The task succeeds exactly
  when \<^verbatim>\<open>wpa_cli\<close> succeeded or \<^verbatim>\<open>nmcli\<close> was tried and succeeded; otherwise it ends
  with an exception. On success the completion asks for a state update and schedules the
  geolocation lookup one second later (and shows the main screen). On failure it shows the
  error message and does neither, and no command other than \<^verbatim>\<open>list_networks\<close> and the
  connect attempt of \<^verbatim>\<open>nmcli\<close> has been run. In both cases the busy indicator is taken
  down and the flag is cleared.
\<close>

theorem connect_fallback_and_outcome:
  fixes sys iface wanted t ui
  defines "ok \<equiv> fst (connect_wpa_cli sys iface wanted)"
  defines "rows \<equiv> drop 1 (splitlines (run_cmd sys (list_networks_cmd iface)))"
  defines "nm \<equiv> proc sys (nmcli_connect_cmd iface wanted)"
  defines "r \<equiv> connect_to sys iface wanted t ui"
  shows "(connecting ui \<longrightarrow> r = (ui, [], None))
     \<and> (\<not> connecting ui \<longrightarrow>
          ok = (run_cmd sys (list_networks_cmd iface) \<noteq> []
                \<and> (\<exists>nid. find_network_id wanted rows = Some nid \<and> nid \<noteq> []))
        \<and> (ok \<longrightarrow>
             (\<exists>nid. find_network_id wanted rows = Some nid
                \<and> fst (snd r) = [list_networks_cmd iface, select_network_cmd iface nid,
                                  enable_network_cmd iface nid, save_config_cmd iface]))
        \<and> (\<not> ok \<longrightarrow>
             fst (snd r) = list_networks_cmd iface
                # (if has_cmd sys ''nmcli'' then [nmcli_connect_cmd iface wanted] else []))
        \<and> hd (fst (snd r)) = list_networks_cmd iface
        \<and> take (length (snd (connect_wpa_cli sys iface wanted))) (fst (snd r))
             = snd (connect_wpa_cli sys iface wanted)
        \<and> ((nmcli_connect_cmd iface wanted \<in> set (fst (snd r))) = (\<not> ok \<and> has_cmd sys ''nmcli''))
        \<and> connect_nmcli sys iface wanted
             = (case nm of Completed returncode stdout \<Rightarrow> Inr (returncode = 0)
                         | Timed_out \<Rightarrow> Inl TimeoutExpired)
        \<and> ((snd (snd r) = Some (Inr True))
             = (ok \<or> (has_cmd sys ''nmcli'' \<and> connect_nmcli sys iface wanted = Inr True)))
        \<and> ((snd (snd r) = Some (Inr True))
             = (ok \<or> (has_cmd sys ''nmcli'' \<and> (\<exists>stdout. nm = Completed 0 stdout))))
        \<and> (snd (snd r) \<noteq> Some (Inr True) \<longrightarrow>
             snd (snd r) = Some (Inl (if has_cmd sys ''nmcli'' \<and> nm = Timed_out then TimeoutExpired
                                      else RuntimeError ''Failed to connect'')))
        \<and> (snd (snd r) = Some (Inr True) \<longrightarrow>
             fst r = ui\<lparr>connecting := False,
                        effects := effects ui @ [Busy_on, Busy_off, State_update_async, Geoip_lookup_after 1]
                          @ (if has_manager ui then [Screen_main] else [])\<rparr>)
        \<and> (snd (snd r) \<noteq> Some (Inr True) \<longrightarrow>
             fst r = ui\<lparr>connecting := False,
                        effects := effects ui @ [Busy_on, Busy_off,
                          Error_message (''Failed to connect to:'' @ [CHR 0x0A] @ wanted)]\<rparr>
             \<and> set (fst (snd r)) \<subseteq> {list_networks_cmd iface, nmcli_connect_cmd iface wanted}))"
proof (intro conjI impI)
  assume "connecting ui"
  then show "r = (ui, [], None)"
    by (simp add: r_def connect_to_def)
next
  assume idle: "\<not> connecting ui"
  note w = connect_wpa_cli_result [of sys iface wanted]
  note n = nmcli_connect_cmd_not_wpa_cli [of iface wanted]
  note defs = r_def ok_def rows_def nm_def connect_to_idle [OF idle] connect_task_def
    connect_done_def connect_nmcli_result Let_def
  show "ok = (run_cmd sys (list_networks_cmd iface) \<noteq> []
                \<and> (\<exists>nid. find_network_id wanted rows = Some nid \<and> nid \<noteq> []))"
    by (auto simp: ok_def rows_def w split: option.splits)
  {
    assume "ok"
    then show "\<exists>nid. find_network_id wanted rows = Some nid
                \<and> fst (snd r) = [list_networks_cmd iface, select_network_cmd iface nid,
                                  enable_network_cmd iface nid, save_config_cmd iface]"
      by (auto simp: defs w split: option.splits if_splits)
  }
  {
    assume "\<not> ok"
    then show "fst (snd r) = list_networks_cmd iface
                # (if has_cmd sys ''nmcli'' then [nmcli_connect_cmd iface wanted] else [])"
      by (auto simp: defs w split: option.splits if_splits proc_result.splits)
  }
  show "hd (fst (snd r)) = list_networks_cmd iface"
    by (auto simp: defs w split: option.splits if_splits proc_result.splits)
  show "take (length (snd (connect_wpa_cli sys iface wanted))) (fst (snd r))
               = snd (connect_wpa_cli sys iface wanted)"
    by (auto simp: defs split: prod.splits sum.splits proc_result.splits)
  show "(nmcli_connect_cmd iface wanted \<in> set (fst (snd r))) = (\<not> ok \<and> has_cmd sys ''nmcli'')"
    using n by (auto simp: defs w split: option.splits if_splits proc_result.splits)
  show "connect_nmcli sys iface wanted
             = (case nm of Completed returncode stdout \<Rightarrow> Inr (returncode = 0)
                         | Timed_out \<Rightarrow> Inl TimeoutExpired)"
    by (simp add: nm_def connect_nmcli_result)
  show "(snd (snd r) = Some (Inr True))
             = (ok \<or> (has_cmd sys ''nmcli'' \<and> connect_nmcli sys iface wanted = Inr True))"
    by (auto simp: defs split: prod.splits proc_result.splits)
  show "(snd (snd r) = Some (Inr True))
             = (ok \<or> (has_cmd sys ''nmcli'' \<and> (\<exists>stdout. nm = Completed 0 stdout)))"
    by (auto simp: defs split: prod.splits proc_result.splits)
  {
    assume "snd (snd r) \<noteq> Some (Inr True)"
    then show "snd (snd r) = Some (Inl (if has_cmd sys ''nmcli'' \<and> nm = Timed_out then TimeoutExpired
                                      else RuntimeError ''Failed to connect''))"
      by (auto simp: defs split: prod.splits proc_result.splits if_splits)
  }
  {
    assume "snd (snd r) = Some (Inr True)"
    then show "fst r = ui\<lparr>connecting := False,
                        effects := effects ui @ [Busy_on, Busy_off, State_update_async, Geoip_lookup_after 1]
                          @ (if has_manager ui then [Screen_main] else [])\<rparr>"
      by (auto simp: defs split: prod.splits proc_result.splits if_splits)
  }
  {
    assume f: "snd (snd r) \<noteq> Some (Inr True)"
    then show "fst r = ui\<lparr>connecting := False,
                        effects := effects ui @ [Busy_on, Busy_off,
                          Error_message (''Failed to connect to:'' @ [CHR 0x0A] @ wanted)]\<rparr>"
      by (auto simp: defs split: prod.splits proc_result.splits if_splits)
    from f show "set (fst (snd r)) \<subseteq> {list_networks_cmd iface, nmcli_connect_cmd iface wanted}"
      by (auto simp: defs w split: option.splits proc_result.splits if_splits)
  }
qed

theorem connect_fallback_and_outcome_witness:
  "\<not> connecting idle_ui
   \<and> \<not> fst (connect_wpa_cli office_via_nmcli ''wlan0'' ''Office'')
   \<and> has_cmd office_via_nmcli ''nmcli''
   \<and> proc office_via_nmcli (nmcli_connect_cmd ''wlan0'' ''Office'')
       = Completed 0 ''Device wlan0 successfully activated''
   \<and> connect_to office_via_nmcli ''wlan0'' ''Office'' 0.1 idle_ui
       = (\<lparr>connecting = False, has_manager = True,
           effects = [Busy_on, Busy_off, State_update_async, Geoip_lookup_after 1, Screen_main]\<rparr>,
          [list_networks_cmd ''wlan0'', nmcli_connect_cmd ''wlan0'' ''Office''],
          Some (Inr True))
   \<and> fst (connect_wpa_cli office_known_rest_fails ''wlan0'' ''Office'')
   \<and> find_network_id ''Office''
        (drop 1 (splitlines (run_cmd office_known_rest_fails (list_networks_cmd ''wlan0'')))) = Some ''3''
   \<and> connect_to office_known_rest_fails ''wlan0'' ''Office'' 0.1 idle_ui
       = (\<lparr>connecting = False, has_manager = True,
           effects = [Busy_on, Busy_off, State_update_async, Geoip_lookup_after 1, Screen_main]\<rparr>,
          [list_networks_cmd ''wlan0'', select_network_cmd ''wlan0'' ''3'',
           enable_network_cmd ''wlan0'' ''3'', save_config_cmd ''wlan0''],
          Some (Inr True))
   \<and> \<not> fst (connect_wpa_cli office_row_without_id ''wlan0'' ''Office'')
   \<and> \<not> has_cmd office_row_without_id ''nmcli''
   \<and> connect_to office_row_without_id ''wlan0'' ''Office'' 0.1 idle_ui
       = (\<lparr>connecting = False, has_manager = True,
           effects = [Busy_on, Busy_off,
                      Error_message (''Failed to connect to:'' @ [CHR 0x0A] @ ''Office'')]\<rparr>,
          [list_networks_cmd ''wlan0''],
          Some (Inl (RuntimeError ''Failed to connect'')))"
proof -
  note eval = connect_wpa_cli_def select_network_cmd_def enable_network_cmd_def
    save_config_cmd_def nmcli_connect_cmd_def idle_ui_def run_cmd_def has_cmd_def
    list_networks_cmd_def string_eval_defs
  have idle: "\<not> connecting idle_ui"
    by (simp add: idle_ui_def)
  have a: "\<not> fst (connect_wpa_cli office_via_nmcli ''wlan0'' ''Office'')"
    "has_cmd office_via_nmcli ''nmcli''"
    "proc office_via_nmcli (nmcli_connect_cmd ''wlan0'' ''Office'')
       = Completed 0 ''Device wlan0 successfully activated''"
    by (simp_all add: eval office_via_nmcli_def)
  have b: "fst (connect_wpa_cli office_known_rest_fails ''wlan0'' ''Office'')"
    "find_network_id ''Office''
        (drop 1 (splitlines (run_cmd office_known_rest_fails (list_networks_cmd ''wlan0'')))) = Some ''3''"
    by (simp_all add: eval office_known_rest_fails_def)
  have c: "\<not> fst (connect_wpa_cli office_row_without_id ''wlan0'' ''Office'')"
    "\<not> has_cmd office_row_without_id ''nmcli''"
    by (simp_all add: eval office_row_without_id_def)
  from connect_fallback_and_outcome [of idle_ui office_via_nmcli "''wlan0''" "''Office''" "0.1"] idle a
  have ra: "connect_to office_via_nmcli ''wlan0'' ''Office'' 0.1 idle_ui
       = (\<lparr>connecting = False, has_manager = True,
           effects = [Busy_on, Busy_off, State_update_async, Geoip_lookup_after 1, Screen_main]\<rparr>,
          [list_networks_cmd ''wlan0'', nmcli_connect_cmd ''wlan0'' ''Office''],
          Some (Inr True))"
    by (simp add: prod_eq_iff idle_ui_def)
  from connect_fallback_and_outcome [of idle_ui office_known_rest_fails "''wlan0''" "''Office''" "0.1"] idle b
  have rb: "connect_to office_known_rest_fails ''wlan0'' ''Office'' 0.1 idle_ui
       = (\<lparr>connecting = False, has_manager = True,
           effects = [Busy_on, Busy_off, State_update_async, Geoip_lookup_after 1, Screen_main]\<rparr>,
          [list_networks_cmd ''wlan0'', select_network_cmd ''wlan0'' ''3'',
           enable_network_cmd ''wlan0'' ''3'', save_config_cmd ''wlan0''],
          Some (Inr True))"
    by (simp add: prod_eq_iff idle_ui_def)
  from connect_fallback_and_outcome [of idle_ui office_row_without_id "''wlan0''" "''Office''" "0.1"] idle c
  have rc: "connect_to office_row_without_id ''wlan0'' ''Office'' 0.1 idle_ui
       = (\<lparr>connecting = False, has_manager = True,
           effects = [Busy_on, Busy_off,
                      Error_message (''Failed to connect to:'' @ [CHR 0x0A] @ ''Office'')]\<rparr>,
          [list_networks_cmd ''wlan0''],
          Some (Inl (RuntimeError ''Failed to connect'')))"
    by (simp add: prod_eq_iff idle_ui_def)
  from idle a b c ra rb rc show ?thesis
    by (simp only: simp_thms)
qed

section \<open>Properties of the debounced lookup\<close>

lemma all_done_tracked: "all_done (app_clock a) \<Longrightarrow> tracked a"
  by (auto simp: all_done_def tracked_def)

lemma armed_tracked: "armed d a \<Longrightarrow> tracked a"
proof -
  assume a: "armed d a"
  let ?evs = "clock_events (app_clock a)"
  from a have ne: "?evs \<noteq> []" and bl: "list_all (\<lambda>ev. \<not> snd (snd ev)) (butlast ?evs)"
    and p: "geoip_pending a = Some (length ?evs - 1)"
    by (simp_all add: armed_def)
  show ?thesis
    unfolding tracked_def
  proof (intro allI impI)
    fix i
    assume i: "i < length ?evs" and act: "snd (snd (?evs ! i))"
    have "i = length ?evs - 1"
    proof (rule ccontr)
      assume "i \<noteq> length ?evs - 1"
      with i have lt: "i < length (butlast ?evs)"
        by simp
      then have "butlast ?evs ! i = ?evs ! i"
        by (simp add: nth_butlast)
      moreover from bl lt have "\<not> snd (snd (butlast ?evs ! i))"
        by (simp add: list_all_length)
      ultimately show False
        using act by simp
    qed
    with p show "geoip_pending a = Some i"
      by simp
  qed
qed

lemma cancel_time [simp]: "clock_time (cancel h clk) = clock_time clk"
  by (simp add: cancel_def)

lemma all_done_nth:
  assumes "\<forall>i < length (clock_events clk). \<not> snd (snd (clock_events clk ! i))"
  shows "all_done clk"
  unfolding all_done_def
proof
  fix ev
  assume "ev \<in> set (clock_events clk)"
  then obtain i where "i < length (clock_events clk)" and "clock_events clk ! i = ev"
    by (auto simp: in_set_conv_nth)
  with assms show "\<not> snd (snd ev)"
    by blast
qed

lemma tracked_cancel_all_done:
  assumes "tracked a"
  shows "all_done (case geoip_pending a of Some h \<Rightarrow> cancel h (app_clock a) | None \<Rightarrow> app_clock a)"
proof (cases "geoip_pending a")
  case None
  with assms have "\<forall>i < length (clock_events (app_clock a)).
      \<not> snd (snd (clock_events (app_clock a) ! i))"
    by (simp add: tracked_def)
  then have "all_done (app_clock a)"
    by (rule all_done_nth)
  with None show ?thesis
    by simp
next
  case (Some h)
  let ?evs = "clock_events (app_clock a)"
  from assms Some have other: "\<forall>i < length ?evs. i \<noteq> h \<longrightarrow> \<not> snd (snd (?evs ! i))"
    by (auto simp: tracked_def)
  have "\<forall>i < length (clock_events (cancel h (app_clock a))).
          \<not> snd (snd (clock_events (cancel h (app_clock a)) ! i))"
    using other by (auto simp: cancel_def nth_list_update split: prod.split)
  then have "all_done (cancel h (app_clock a))"
    by (rule all_done_nth)
  with Some show ?thesis
    by simp
qed

lemma trigger_armed:
  assumes "tracked a"
  shows "armed (clock_time (app_clock a) + delay) (trigger_geoip_soon delay a)
    \<and> lookups (trigger_geoip_soon delay a) = lookups a
    \<and> clock_time (app_clock (trigger_geoip_soon delay a)) = clock_time (app_clock a)"
proof -
  let ?c = "case geoip_pending a of Some h \<Rightarrow> cancel h (app_clock a) | None \<Rightarrow> app_clock a"
  from assms have d: "all_done ?c"
    by (rule tracked_cancel_all_done)
  have t: "clock_time ?c = clock_time (app_clock a)"
    by (simp split: option.split)
  from d have "list_all (\<lambda>ev. \<not> snd (snd ev)) (clock_events ?c)"
    by (simp add: all_done_def list_all_iff)
  with t show ?thesis
    by (simp add: trigger_geoip_soon_def Let_def schedule_once_def armed_def)
qed

lemma cancel_resolution [simp]: "clock_resolution (cancel h clk) = clock_resolution clk"
  by (simp add: cancel_def)

lemma trigger_resolution [simp]:
  "clock_resolution (app_clock (trigger_geoip_soon delay a)) = clock_resolution (app_clock a)"
  by (simp add: trigger_geoip_soon_def Let_def schedule_once_def split: option.split)

lemma frame_resolution [simp]:
  "clock_resolution (app_clock (app_frame t a)) = clock_resolution (app_clock a)"
  by (simp add: app_frame_def tick_def Let_def)

lemma frame_all_done:
  "all_done (app_clock a) \<Longrightarrow>
   all_done (app_clock (app_frame t a)) \<and> lookups (app_frame t a) = lookups a
   \<and> clock_time (app_clock (app_frame t a)) = max t (clock_time (app_clock a))"
  using tick_all_done [of "app_clock a" t]
  by (auto simp: app_frame_def tick_def Let_def split: prod.split)

text \<open>
  A frame while more than the resolution remains of the timeout of the pending timer runs
  nothing; the first frame at which no more than the resolution remains runs the timer.
\<close>

lemma frame_armed_early:
  assumes "armed d a" and "max t (clock_time (app_clock a)) < d - clock_resolution (app_clock a)"
  shows "armed d (app_frame t a) \<and> lookups (app_frame t a) = lookups a
   \<and> clock_time (app_clock (app_frame t a)) = max t (clock_time (app_clock a))"
proof -
  let ?evs = "clock_events (app_clock a)"
  let ?t = "max t (clock_time (app_clock a))"
  let ?r = "clock_resolution (app_clock a)"
  from assms(1) have ne: "?evs \<noteq> []" and l: "last ?evs = (d, Update_geoip_async, True)"
    and bl: "list_all (\<lambda>ev. \<not> snd (snd ev)) (butlast ?evs)"
    and p: "geoip_pending a = Some (length ?evs - 1)"
    by (simp_all add: armed_def)
  from ne have evs: "?evs = butlast ?evs @ [last ?evs]"
    by simp
  have nofire: "filter (\<lambda>(due, callback, pending). pending \<and> due - ?r \<le> ?t) ?evs = []"
    using bl l assms(2) by (subst evs) (auto simp: filter_empty_conv list_all_iff)
  have keep: "map (\<lambda>(due, callback, pending). (due, callback, pending \<and> \<not> due - ?r \<le> ?t)) ?evs = ?evs"
    using bl l assms(2) by (subst (1 2) evs) (auto simp: list_all_iff intro!: map_idI)
  show ?thesis
    using assms(1) by (simp add: app_frame_def tick_def Let_def nofire keep armed_def)
qed

lemma frame_armed_due:
  assumes "armed d a" and "d - clock_resolution (app_clock a) \<le> max t (clock_time (app_clock a))"
  shows "all_done (app_clock (app_frame t a))
   \<and> lookups (app_frame t a) = lookups a @ [max t (clock_time (app_clock a))]
   \<and> clock_time (app_clock (app_frame t a)) = max t (clock_time (app_clock a))"
proof -
  let ?evs = "clock_events (app_clock a)"
  let ?t = "max t (clock_time (app_clock a))"
  let ?r = "clock_resolution (app_clock a)"
  from assms(1) have ne: "?evs \<noteq> []" and l: "last ?evs = (d, Update_geoip_async, True)"
    and bl: "list_all (\<lambda>ev. \<not> snd (snd ev)) (butlast ?evs)"
    by (simp_all add: armed_def)
  from ne have evs: "?evs = butlast ?evs @ [last ?evs]"
    by simp
  have "filter (\<lambda>(due, callback, pending). pending \<and> due - ?r \<le> ?t) (butlast ?evs) = []"
    using bl by (auto simp: filter_empty_conv list_all_iff)
  then have fire: "filter (\<lambda>(due, callback, pending). pending \<and> due - ?r \<le> ?t) ?evs = [last ?evs]"
    using l assms(2) by (subst evs) (simp del: append_butlast_last_id)
  have fin: "\<forall>ev\<in>set (map (\<lambda>(due, callback, pending). (due, callback, pending \<and> \<not> due - ?r \<le> ?t)) ?evs).
      \<not> snd (snd ev)"
    using bl l assms(2) by (subst evs) (auto simp: list_all_iff simp del: append_butlast_last_id)
  show ?thesis
    using fin by (simp add: app_frame_def tick_def Let_def fire all_done_def)
qed

lemma frames_all_done:
  "all_done (app_clock a) \<Longrightarrow> lookups (app_run delay (map Frame fs) a) = lookups a"
proof (induction fs arbitrary: a)
  case Nil
  then show ?case by (simp add: app_run_def)
next
  case (Cons f fs)
  from frame_all_done [OF Cons.prems, of f]
  have "all_done (app_clock (app_frame f a))" and l: "lookups (app_frame f a) = lookups a"
    by simp_all
  then have "lookups (app_run delay (map Frame fs) (app_frame f a)) = lookups (app_frame f a)"
    using Cons.IH by blast
  with l show ?case
    by (simp add: app_run_def)
qed

lemma frames_armed:
  assumes "armed d a" and "sorted fs" and "\<forall>f\<in>set fs. clock_time (app_clock a) \<le> f"
  shows "lookups (app_run delay (map Frame fs) a)
      = lookups a @ take 1 (filter (\<lambda>f. d - clock_resolution (app_clock a) \<le> f) fs)"
  using assms
proof (induction fs arbitrary: a)
  case Nil
  then show ?case by (simp add: app_run_def)
next
  case (Cons f fs)
  from Cons.prems(3) have m: "max f (clock_time (app_clock a)) = f"
    by simp
  show ?case
  proof (cases "d - clock_resolution (app_clock a) \<le> f")
    case True
    with m frame_armed_due [OF Cons.prems(1), of f]
    have "all_done (app_clock (app_frame f a))" and "lookups (app_frame f a) = lookups a @ [f]"
      by simp_all
    with frames_all_done [of "app_frame f a" delay fs] True show ?thesis
      by (simp add: app_run_def)
  next
    case False
    with m frame_armed_early [OF Cons.prems(1), of f]
    have a: "armed d (app_frame f a)" and l: "lookups (app_frame f a) = lookups a"
      and t: "clock_time (app_clock (app_frame f a)) = f"
      by simp_all
    from Cons.prems(2) have s: "sorted fs" and le: "\<forall>g\<in>set fs. f \<le> g"
      by simp_all
    from le t have "\<forall>g\<in>set fs. clock_time (app_clock (app_frame f a)) \<le> g"
      by simp
    from Cons.IH [OF a s this] l False show ?thesis
      by (simp add: app_run_def)
  qed
qed

lemma session_Cons:
  "app_run delay (session ((t, changed) # xs)) a =
     app_run delay (session xs)
       (if changed then trigger_geoip_soon delay (app_frame t a) else app_frame t a)"
  by (simp add: session_def app_run_def)

lemma trigger_times_Cons:
  "trigger_times ((t, changed) # xs) = (if changed then t # trigger_times xs else trigger_times xs)"
  by (simp add: trigger_times_def)

lemma ends_with_trigger:
  assumes "xs \<noteq> []" and "snd (last xs)"
  shows "trigger_times xs \<noteq> [] \<and> last (trigger_times xs) = fst (last xs)"
proof -
  from assms(1) have "xs = butlast xs @ [last xs]"
    by simp
  then have "filter snd xs = filter snd (butlast xs) @ filter snd [last xs]"
    by (metis filter_append)
  with assms(2) have "trigger_times xs = map fst (filter snd (butlast xs)) @ [fst (last xs)]"
    by (simp add: trigger_times_def)
  then show ?thesis
    by simp
qed

text \<open>
  A frame between two changes comes before the next change, so more than the resolution
  remains of the timeout of the pending timer.
\<close>

lemma frame_before_next_trigger:
  assumes "xs \<noteq> []" and "snd (last xs)" and "\<forall>x\<in>set xs. t \<le> fst x"
    and "in_window w (tp # trigger_times xs)"
  shows "t < tp + w"
proof -
  from ends_with_trigger [OF assms(1,2)] obtain tn rest where tt: "trigger_times xs = tn # rest"
    by (cases "trigger_times xs") auto
  then have "tn \<in> set (trigger_times xs)"
    by simp
  then have "tn \<in> fst ` set xs"
    by (auto simp: trigger_times_def)
  with assms(3) have "t \<le> tn"
    by auto
  moreover from assms(4) tt have "tn - tp < w"
    by simp
  ultimately show ?thesis
    by simp
qed

lemma session_armed:
  assumes "armed (tp + delay) a" and "clock_time (app_clock a) = tc"
    and "sorted (map fst xs)" and "\<forall>x\<in>set xs. tc \<le> fst x"
    and "in_window (delay - clock_resolution (app_clock a)) (tp # trigger_times xs)"
    and "xs = [] \<or> snd (last xs)"
  shows "armed (last (tp # trigger_times xs) + delay) (app_run delay (session xs) a)
    \<and> clock_time (app_clock (app_run delay (session xs) a)) = last (tc # map fst xs)
    \<and> clock_resolution (app_clock (app_run delay (session xs) a)) = clock_resolution (app_clock a)
    \<and> lookups (app_run delay (session xs) a) = lookups a"
  using assms
proof (induction xs arbitrary: a tp tc)
  case Nil
  then show ?case by (simp add: app_run_def session_def trigger_times_def)
next
  case (Cons x xs)
  obtain t changed where x: "x = (t, changed)"
    by (cases x)
  let ?r = "clock_resolution (app_clock a)"
  from Cons.prems(4) x have le: "tc \<le> t"
    by simp
  with Cons.prems(2) have m: "max t (clock_time (app_clock a)) = t"
    by simp
  from Cons.prems(3) x have s: "sorted (map fst xs)" and after: "\<forall>y\<in>set xs. t \<le> fst y"
    by simp_all
  from Cons.prems(6) have ends: "xs = [] \<or> snd (last xs)"
    by (cases "xs = []") simp_all
  have early: "t < tp + (delay - ?r)"
  proof (cases changed)
    case True
    with Cons.prems(5) x show ?thesis
      by (simp add: trigger_times_Cons)
  next
    case False
    with Cons.prems(6) x have ne: "xs \<noteq> []" and lt: "snd (last xs)"
      by (cases "xs = []", simp_all)+
    from Cons.prems(5) x False have "in_window (delay - ?r) (tp # trigger_times xs)"
      by (simp add: trigger_times_Cons)
    from frame_before_next_trigger [OF ne lt after this] show ?thesis .
  qed
  then have "max t (clock_time (app_clock a)) < tp + delay - ?r"
    using m by simp
  from frame_armed_early [OF Cons.prems(1) this] m
  have a1: "armed (tp + delay) (app_frame t a)" and l1: "lookups (app_frame t a) = lookups a"
    and t1: "clock_time (app_clock (app_frame t a)) = t"
    by simp_all
  show ?case
  proof (cases changed)
    case True
    let ?a2 = "trigger_geoip_soon delay (app_frame t a)"
    from trigger_armed [OF armed_tracked [OF a1], of delay] t1 l1
    have a2: "armed (t + delay) ?a2" and l2: "lookups ?a2 = lookups a"
      and t2: "clock_time (app_clock ?a2) = t"
      by simp_all
    have r2: "clock_resolution (app_clock ?a2) = ?r"
      by simp
    from Cons.prems(5) x True r2
    have w2: "in_window (delay - clock_resolution (app_clock ?a2)) (t # trigger_times xs)"
      by (simp add: trigger_times_Cons)
    from Cons.IH [OF a2 t2 s after w2 ends] l2 r2 x True show ?thesis
      by (simp add: session_Cons trigger_times_Cons)
  next
    case False
    have r1: "clock_resolution (app_clock (app_frame t a)) = ?r"
      by simp
    from Cons.prems(5) x False r1
    have w1: "in_window (delay - clock_resolution (app_clock (app_frame t a))) (tp # trigger_times xs)"
      by (simp add: trigger_times_Cons)
    from Cons.IH [OF a1 t1 s after w1 ends] l1 r1 x False show ?thesis
      by (simp add: session_Cons trigger_times_Cons)
  qed
qed

lemma session_idle:
  assumes "all_done (app_clock a)" and "clock_time (app_clock a) = tc"
    and "sorted (map fst xs)" and "\<forall>x\<in>set xs. tc \<le> fst x"
    and "in_window (delay - clock_resolution (app_clock a)) (trigger_times xs)"
    and "xs \<noteq> []" and "snd (last xs)"
  shows "armed (fst (last xs) + delay) (app_run delay (session xs) a)
    \<and> clock_time (app_clock (app_run delay (session xs) a)) = fst (last xs)
    \<and> clock_resolution (app_clock (app_run delay (session xs) a)) = clock_resolution (app_clock a)
    \<and> lookups (app_run delay (session xs) a) = lookups a"
  using assms
proof (induction xs arbitrary: a tc)
  case Nil
  then show ?case by simp
next
  case (Cons x xs)
  obtain t changed where x: "x = (t, changed)"
    by (cases x)
  let ?r = "clock_resolution (app_clock a)"
  from Cons.prems(4) x have le: "tc \<le> t"
    by simp
  with Cons.prems(2) have m: "max t (clock_time (app_clock a)) = t"
    by simp
  from Cons.prems(3) x have s: "sorted (map fst xs)" and after: "\<forall>y\<in>set xs. t \<le> fst y"
    by simp_all
  from frame_all_done [OF Cons.prems(1), of t] m
  have d1: "all_done (app_clock (app_frame t a))" and l1: "lookups (app_frame t a) = lookups a"
    and t1: "clock_time (app_clock (app_frame t a)) = t"
    by simp_all
  have r1: "clock_resolution (app_clock (app_frame t a)) = ?r"
    by simp
  show ?case
  proof (cases changed)
    case True
    let ?a2 = "trigger_geoip_soon delay (app_frame t a)"
    from trigger_armed [OF all_done_tracked [OF d1], of delay] t1 l1
    have a2: "armed (t + delay) ?a2" and l2: "lookups ?a2 = lookups a"
      and t2: "clock_time (app_clock ?a2) = t"
      by simp_all
    have r2: "clock_resolution (app_clock ?a2) = ?r"
      by simp
    from Cons.prems(5) x True r2
    have w2: "in_window (delay - clock_resolution (app_clock ?a2)) (t # trigger_times xs)"
      by (simp add: trigger_times_Cons)
    from Cons.prems(7) have ends: "xs = [] \<or> snd (last xs)"
      by (cases "xs = []") simp_all
    have lt: "last (t # trigger_times xs) = fst (last (x # xs))"
    proof (cases "xs = []")
      case True
      with x show ?thesis by (simp add: trigger_times_def)
    next
      case False
      with ends ends_with_trigger [of xs] show ?thesis by simp
    qed
    have lc: "last (t # map fst xs) = fst (last (x # xs))"
      using x by (cases "xs = []") (simp_all add: last_map)
    from session_armed [OF a2 t2 s after w2 ends] l2 r2 x True lt lc show ?thesis
      by (simp add: session_Cons)
  next
    case False
    with Cons.prems(7) x have ne: "xs \<noteq> []" and lst: "snd (last xs)"
      by (cases "xs = []", simp_all)+
    from Cons.prems(5) x False r1
    have w1: "in_window (delay - clock_resolution (app_clock (app_frame t a))) (trigger_times xs)"
      by (simp add: trigger_times_Cons)
    from Cons.IH [OF d1 t1 s after w1 ne lst] l1 r1 x False ne show ?thesis
      by (simp add: session_Cons)
  qed
qed

text \<open>
  Claim C8, as amended. Take a clock of resolution \<open>r\<close>, a debounce delay, and a run of
  frames at non-decreasing times, not before the start of the clock, in some of which a
  bound property changes, and which ends with such a change; each change comes less than
  the delay minus \<open>r\<close> after the one before. Every change cancels the pending timer and
  schedules a new one, so at the end of the run exactly one timer is still to run, with its
  timeout ending one delay after the last change, and the timers have made no lookup. In
  the frames that follow, at non-decreasing times, the timers make at most one lookup, never
  earlier than \<open>r\<close> before the last change plus the delay: it is made in the first frame
  from that time on, and it is made exactly once when there is such a frame. For changes at
  \<open>t\<close>, \<open>t + 0.1\<close>, \<open>t + 0.2\<close>, a delay of 0.5 and the default resolution of
  \<open>1 / 180\<close> the one lookup comes at \<open>t + 0.7 - 1 / 180\<close> or later.
\<close>

theorem debounce_one_lookup_after_last_trigger:
  fixes xs :: "(real \<times> bool) list" and fs :: "real list" and delay resolution t0 :: real
  defines "last_trigger \<equiv> fst (last xs)"
  assumes "xs \<noteq> []" and "snd (last xs)" and "sorted (map fst xs)" and "t0 \<le> fst (hd xs)"
    and "in_window (delay - resolution) (trigger_times xs)"
    and "sorted fs" and "\<forall>f\<in>set fs. last_trigger \<le> f"
  shows "armed (last_trigger + delay) (app_run delay (session xs) (app_init resolution t0))
    \<and> lookups (app_run delay (session xs) (app_init resolution t0)) = []
    \<and> lookups (app_run delay (session xs @ map Frame fs) (app_init resolution t0))
        = take 1 (filter (\<lambda>f. last_trigger + delay - resolution \<le> f) fs)
    \<and> length (lookups (app_run delay (session xs @ map Frame fs) (app_init resolution t0))) \<le> 1
    \<and> (\<forall>x\<in>set (lookups (app_run delay (session xs @ map Frame fs) (app_init resolution t0))).
          last_trigger + delay - resolution \<le> x)
    \<and> ((\<exists>f\<in>set fs. last_trigger + delay - resolution \<le> f)
        \<longrightarrow> length (lookups (app_run delay (session xs @ map Frame fs) (app_init resolution t0))) = 1)"
proof -
  let ?init = "app_init resolution t0 :: app"
  let ?a = "app_run delay (session xs) ?init"
  let ?d = "last_trigger + delay - resolution"
  have d0: "all_done (app_clock ?init)" and c0: "clock_time (app_clock ?init) = t0"
    and r0: "clock_resolution (app_clock ?init) = resolution" and l0: "lookups ?init = []"
    by (simp_all add: app_init_def clock_init_def all_done_def)
  from assms(2,4,5) have from_t0: "\<forall>x\<in>set xs. t0 \<le> fst x"
    by (cases xs) auto
  from assms(6) r0 have w: "in_window (delay - clock_resolution (app_clock ?init)) (trigger_times xs)"
    by simp
  from session_idle [OF d0 c0 assms(4) from_t0 w assms(2,3)] r0 l0
  have a: "armed (last_trigger + delay) ?a" and t: "clock_time (app_clock ?a) = last_trigger"
    and r: "clock_resolution (app_clock ?a) = resolution"
    and l: "lookups ?a = []"
    by (simp_all add: last_trigger_def)
  from assms(8) t have "\<forall>f\<in>set fs. clock_time (app_clock ?a) \<le> f"
    by simp
  from frames_armed [OF a assms(7) this, of delay] l r
  have eq: "lookups (app_run delay (session xs @ map Frame fs) (app_init resolution t0))
        = take 1 (filter (\<lambda>f. ?d \<le> f) fs)"
    by (simp add: app_run_def)
  have len: "length (take 1 (filter (\<lambda>f. ?d \<le> f) fs)) \<le> 1"
    by simp
  have ge: "\<forall>x\<in>set (take 1 (filter (\<lambda>f. ?d \<le> f) fs)). ?d \<le> x"
    by (auto dest: in_set_takeD)
  have one: "(\<exists>f\<in>set fs. ?d \<le> f) \<longrightarrow> length (take 1 (filter (\<lambda>f. ?d \<le> f) fs)) = 1"
  proof
    assume "\<exists>f\<in>set fs. ?d \<le> f"
    then have "filter (\<lambda>f. ?d \<le> f) fs \<noteq> []"
      by (simp add: filter_empty_conv)
    then show "length (take 1 (filter (\<lambda>f. ?d \<le> f) fs)) = 1"
      by (cases "filter (\<lambda>f. ?d \<le> f) fs") simp_all
  qed
  from a l eq len ge one show ?thesis
    by (simp only: simp_thms)
qed

theorem debounce_one_lookup_after_last_trigger_witness:
  "in_window (0.5 - default_resolution)
     (trigger_times [(1, True), (1.05, False), (1.1, True), (1.1, True), (1.15, False), (1.2, True)])
   \<and> sorted (map fst [(1 :: real, True), (1.05, False), (1.1, True), (1.1, True), (1.15, False), (1.2, True)])
   \<and> sorted [1.3, 1.5, 1.69, 1.696, 1.7, 1.8, 2.5 :: real]
   \<and> lookups (app_run 0.5
        (session [(1, True), (1.05, False), (1.1, True), (1.1, True), (1.15, False), (1.2, True)]
         @ map Frame [1.3, 1.5, 1.69, 1.696, 1.7, 1.8, 2.5])
        (app_init default_resolution 0))
       = [1.696]"
proof -
  let ?xs = "[(1 :: real, True), (1.05, False), (1.1, True), (1.1, True), (1.15, False), (1.2, True)]"
  let ?fs = "[1.3, 1.5, 1.69, 1.696, 1.7, 1.8, 2.5 :: real]"
  have h: "?xs \<noteq> []" "snd (last ?xs)" "sorted (map fst ?xs)" "(0 :: real) \<le> fst (hd ?xs)"
    "in_window (0.5 - default_resolution) (trigger_times ?xs)"
    "sorted ?fs" "\<forall>f\<in>set ?fs. fst (last ?xs) \<le> f"
    by (simp_all add: default_resolution_def trigger_times_def)
  from debounce_one_lookup_after_last_trigger [OF h]
  have "lookups (app_run 0.5 (session ?xs @ map Frame ?fs) (app_init default_resolution 0))
        = take 1 (filter (\<lambda>f. fst (last ?xs) + 0.5 - default_resolution \<le> f) ?fs)"
    by blast
  then have "lookups (app_run 0.5 (session ?xs @ map Frame ?fs) (app_init default_resolution 0))
       = [1.696]"
    by (simp add: default_resolution_def)
  with h show ?thesis
    by (simp only: simp_thms)
qed

text \<open>
  Claim C8 as stated fails, with the delay of 0.5 and the default resolution. After
  changes at 1, 1.1 and 1.2 a frame at 1.696 makes the lookup, before the delay after the
  last change has passed. And the changes at 1 and 1.497 are less than the delay apart,
  yet the timers make two lookups: the frame at 1.497 runs the first timer before the
  second change can cancel it.
\<close>

theorem debounce_clock_resolution_counterexample:
  "in_window 0.5 (trigger_times [(1, True), (1.1, True), (1.2, True)])
   \<and> lookups (app_run 0.5
        (session [(1, True), (1.1, True), (1.2, True)] @ map Frame [1.3, 1.696, 1.8])
        (app_init default_resolution 0)) = [1.696]
   \<and> (1.696 :: real) < 1.2 + 0.5
   \<and> in_window 0.5 (trigger_times [(1, True), (1.497, True)])
   \<and> lookups (app_run 0.5
        (session [(1, True), (1.497, True)] @ map Frame [2, 2.5])
        (app_init default_resolution 0)) = [1.497, 2]"
  by (simp add: app_run_def session_def trigger_times_def app_init_def clock_init_def
      default_resolution_def app_frame_def trigger_geoip_soon_def tick_def schedule_once_def
      cancel_def Let_def)

section \<open>Properties of the state store\<close>

lemma foldl_setattr:
  "distinct (map fst snap) \<Longrightarrow>
   foldl setattr (st, ns) snap =
     (\<lambda>k. case map_of snap k of Some v \<Rightarrow> v | None \<Rightarrow> st k,
      ns @ map fst (filter (\<lambda>kv. st (fst kv) \<noteq> snd kv) snap))"
proof (induction snap arbitrary: st ns)
  case Nil
  then show ?case by simp
next
  case (Cons kv snap)
  obtain k v where kv: "kv = (k, v)"
    by (cases kv)
  from Cons.prems kv have d: "distinct (map fst snap)" and notin: "k \<notin> fst ` set snap"
    by simp_all
  from notin have none: "map_of snap k = None"
    by (simp add: map_of_eq_None_iff)
  from notin have same: "filter (\<lambda>kv. (st(k := v)) (fst kv) \<noteq> snd kv) snap
      = filter (\<lambda>kv. st (fst kv) \<noteq> snd kv) snap"
    by (intro filter_cong refl) auto
  show ?case
  proof (cases "st k = v")
    case True
    have "(\<lambda>k'. case map_of snap k' of Some v \<Rightarrow> v | None \<Rightarrow> st k')
        = (\<lambda>k'. case map_of (kv # snap) k' of Some v \<Rightarrow> v | None \<Rightarrow> st k')"
      using True none by (auto simp: kv fun_eq_iff split: option.split)
    moreover from True have "setattr (st, ns) kv = (st, ns)"
      by (simp add: setattr_def kv)
    ultimately show ?thesis
      using True by (simp add: Cons.IH [OF d] kv)
  next
    case False
    have "(\<lambda>k'. case map_of snap k' of Some v \<Rightarrow> v | None \<Rightarrow> (st(k := v)) k')
        = (\<lambda>k'. case map_of (kv # snap) k' of Some v \<Rightarrow> v | None \<Rightarrow> st k')"
      using none by (auto simp: kv fun_eq_iff split: option.split)
    moreover from False have "setattr (st, ns) kv = (st(k := v), ns @ [k])"
      by (simp add: setattr_def kv)
    ultimately show ?thesis
      using False by (simp add: Cons.IH [OF d] same kv del: fun_upd_apply)
  qed
qed

lemma collect_snapshot_keys:
  "collect_snapshot p self = Inr snap \<Longrightarrow>
   map fst snap = (if thermal_raw p = [] then remove1 Cpu_temp collected_props else collected_props)"
  by (auto simp: collect_snapshot_def collected_props_def Let_def split: if_splits option.splits)

text \<open>
  Claim C9, as amended. Applying a snapshot (a dictionary, so its keys are distinct) gives
  every property that the snapshot holds the snapshot's value and leaves the others as
  they were; it notifies once for each property whose value changed, one notification
  after the other, in the order of the snapshot's items. For a snapshot that
  \<^verbatim>\<open>collect_snapshot\<close> returned, that is the order in which \<^verbatim>\<open>collect_snapshot\<close> assigns
  the keys: \<^verbatim>\<open>net_status\<close>, \<^verbatim>\<open>client_ssid\<close>, \<^verbatim>\<open>ap_status\<close>, \<^verbatim>\<open>cpu_temp\<close> (when the
  temperature was read), \<^verbatim>\<open>hostname\<close>, \<^verbatim>\<open>uptime\<close>, \<^verbatim>\<open>connected_clients\<close>,
  \<^verbatim>\<open>ap_ssid\<close>, \<^verbatim>\<open>ip_address\<close>, \<^verbatim>\<open>vpn_status\<close>, \<^verbatim>\<open>vpn_name\<close>.
\<close>

theorem apply_snapshot_notifies_in_snapshot_order:
  "(distinct (map fst snap) \<longrightarrow>
      fst (apply_snapshot self snap) = (\<lambda>k. case map_of snap k of Some v \<Rightarrow> v | None \<Rightarrow> self k)
      \<and> snd (apply_snapshot self snap) = map fst (filter (\<lambda>kv. self (fst kv) \<noteq> snd kv) snap))
   \<and> (collect_snapshot p self' = Inr snap \<longrightarrow>
        distinct (map fst snap)
        \<and> map fst snap = (if thermal_raw p = [] then remove1 Cpu_temp collected_props else collected_props)
        \<and> snd (apply_snapshot self snap)
            = filter (\<lambda>k. \<exists>v. map_of snap k = Some v \<and> self k \<noteq> v) (map fst snap))"
proof (intro conjI impI)
  assume d: "distinct (map fst snap)"
  from foldl_setattr [OF d, of self "[]"]
  show "fst (apply_snapshot self snap) = (\<lambda>k. case map_of snap k of Some v \<Rightarrow> v | None \<Rightarrow> self k)"
    and "snd (apply_snapshot self snap) = map fst (filter (\<lambda>kv. self (fst kv) \<noteq> snd kv) snap)"
    by (simp_all add: apply_snapshot_def)
next
  assume c: "collect_snapshot p self' = Inr snap"
  from collect_snapshot_keys [OF c]
  show keys: "map fst snap = (if thermal_raw p = [] then remove1 Cpu_temp collected_props else collected_props)" .
  then show d: "distinct (map fst snap)"
    by (simp add: collected_props_def split: if_splits)
  have "map fst (filter (\<lambda>kv. self (fst kv) \<noteq> snd kv) snap)
      = filter (\<lambda>k. \<exists>v. map_of snap k = Some v \<and> self k \<noteq> v) (map fst snap)"
    unfolding filter_map
    by (intro arg_cong [where f = "map fst"] filter_cong refl)
       (use d in \<open>auto simp: comp_def dest: eq_key_imp_eq_value\<close>)
  with foldl_setattr [OF d, of self "[]"]
  show "snd (apply_snapshot self snap)
            = filter (\<lambda>k. \<exists>v. map_of snap k = Some v \<and> self k \<noteq> v) (map fst snap)"
    by (simp add: apply_snapshot_def)
qed

text \<open>
  Claim C9 as stated fails: the first snapshot of a running appliance, applied to the
  initial store, notifies \<^verbatim>\<open>client_ssid\<close> before \<^verbatim>\<open>ap_status\<close> and \<^verbatim>\<open>vpn_status\<close>, which
  the class body of \<^verbatim>\<open>UiState\<close> declares before it; the notifications are not in the
  order of declaration.
\<close>

theorem apply_snapshot_declared_order_counterexample:
  "collect_snapshot example_probes ui_state_init = Inr example_snapshot
   \<and> snd (apply_snapshot ui_state_init example_snapshot)
       = [Net_status, Client_ssid, Ap_status, Cpu_temp, Hostname, Uptime, Connected_clients,
          Ap_ssid, Ip_address, Vpn_status, Vpn_name]
   \<and> \<not> sorted (map declared_index (snd (apply_snapshot ui_state_init example_snapshot)))"
  by (simp add: collect_snapshot_def example_probes_def example_snapshot_def apply_snapshot_def
      setattr_def python_int_def digit_val_def or_default_def truthy_def declared_index_def
      declared_props_def string_eval_defs)

theorem apply_snapshot_notifies_in_snapshot_order_witness:
  "distinct (map fst example_snapshot)
   \<and> collect_snapshot example_probes ui_state_init = Inr example_snapshot
   \<and> snd (apply_snapshot (ui_state_init(Net_status := Str ''ON'', Vpn_status := Str ''ON''))
        example_snapshot)
       = [Client_ssid, Ap_status, Cpu_temp, Hostname, Uptime, Connected_clients,
          Ap_ssid, Ip_address, Vpn_name]"
proof -
  have d: "distinct (map fst example_snapshot)"
    by (simp add: example_snapshot_def)
  have c: "collect_snapshot example_probes ui_state_init = Inr example_snapshot"
    by (simp add: collect_snapshot_def example_probes_def example_snapshot_def apply_snapshot_def
      setattr_def python_int_def digit_val_def or_default_def truthy_def declared_index_def
      declared_props_def string_eval_defs)
  from apply_snapshot_notifies_in_snapshot_order
    [of example_snapshot "ui_state_init(Net_status := Str ''ON'', Vpn_status := Str ''ON'')"
        example_probes ui_state_init] d c
  have "snd (apply_snapshot (ui_state_init(Net_status := Str ''ON'', Vpn_status := Str ''ON''))
        example_snapshot)
      = map fst (filter (\<lambda>kv. (ui_state_init(Net_status := Str ''ON'', Vpn_status := Str ''ON'')) (fst kv) \<noteq> snd kv)
          example_snapshot)"
    by blast
  also have "\<dots> = [Client_ssid, Ap_status, Cpu_temp, Hostname, Uptime, Connected_clients,
          Ap_ssid, Ip_address, Vpn_name]"
    by (simp add: example_snapshot_def)
  finally show ?thesis
    using d c by (simp only: simp_thms)
qed

end
